theory Spec2Isabelle
  imports Complex_Main "HOL-Library.Product_Lexorder"
begin

section \<open>Python primitives used by pdfParser.py\<close>

text \<open>
  The module raises nothing of its own; the only failures are the ones of the calls it
  makes: \<open>fitz.open\<close> on a file that cannot be decoded, and \<open>max\<close>/\<open>min\<close> on an empty
  sequence (Python's ValueError).
\<close>

datatype error = DocumentParseError | ValueError

text \<open>
  \<open>max(xs, key=f)\<close>: the first element whose key is largest (a later element replaces the
  current one only when its key is strictly greater); ValueError on an empty sequence.
\<close>

fun max_key_from :: "('a \<Rightarrow> 'k::linorder) \<Rightarrow> 'a \<Rightarrow> 'a list \<Rightarrow> 'a" where
  "max_key_from f best [] = best"
| "max_key_from f best (x # xs) = max_key_from f (if f best < f x then x else best) xs"

definition py_max_key :: "('a \<Rightarrow> 'k::linorder) \<Rightarrow> 'a list \<Rightarrow> error + 'a" where
  "py_max_key f xs = (case xs of [] \<Rightarrow> Inl ValueError | x # rest \<Rightarrow> Inr (max_key_from f x rest))"

text \<open>\<open>min(xs)\<close>: the first smallest element; ValueError on an empty sequence.\<close>

fun min_from :: "'a::linorder \<Rightarrow> 'a list \<Rightarrow> 'a" where
  "min_from best [] = best"
| "min_from best (x # xs) = min_from (if x < best then x else best) xs"

definition py_min :: "'a::linorder list \<Rightarrow> error + 'a" where
  "py_min xs = (case xs of [] \<Rightarrow> Inl ValueError | x # rest \<Rightarrow> Inr (min_from x rest))"

text \<open>\<open>sorted(set(xs), reverse=True)\<close>: the distinct values, largest first.\<close>

definition sorted_set_reverse :: "'a::linorder list \<Rightarrow> 'a list" where
  "sorted_set_reverse xs = rev (sort (remdups xs))"

text \<open>
  \<open>xs[:k]\<close> for a Python integer \<open>k\<close>: the first \<open>k\<close> elements, and for a negative
  \<open>k\<close> all but the last \<open>-k\<close>.
\<close>

definition py_slice_to :: "int \<Rightarrow> 'a list \<Rightarrow> 'a list" where
  "py_slice_to k xs = (if 0 \<le> k then take (nat k) xs else take (length xs - nat (- k)) xs)"

text \<open>\<open>sep.join(parts)\<close>.\<close>

fun py_join :: "string \<Rightarrow> string list \<Rightarrow> string" where
  "py_join sep [] = []"
| "py_join sep [x] = x"
| "py_join sep (x # y # ys) = x @ sep @ py_join sep (y # ys)"

subsection \<open>Characters and strings\<close>

text \<open>
  Text is a list of characters with code points below 256. The classes are those of
  Python's \<open>str\<close> methods on that range: \<open>isspace\<close> (also what \<open>\s\<close> matches),
  decimal digits (what \<open>\d\<close> matches), upper-case and lower-case letters. No character
  below 256 is title-case.
\<close>

definition py_isspace :: "char \<Rightarrow> bool" where
  "py_isspace c = (let n = (of_char c :: nat) in
     (9 \<le> n \<and> n \<le> 13) \<or> (28 \<le> n \<and> n \<le> 32) \<or> n = 133 \<or> n = 160)"

definition py_isdecimal :: "char \<Rightarrow> bool" where
  "py_isdecimal c = (let n = (of_char c :: nat) in 48 \<le> n \<and> n \<le> 57)"

definition py_isupper_char :: "char \<Rightarrow> bool" where
  "py_isupper_char c = (let n = (of_char c :: nat) in
     (65 \<le> n \<and> n \<le> 90) \<or> (192 \<le> n \<and> n \<le> 214) \<or> (216 \<le> n \<and> n \<le> 222))"

definition py_islower_char :: "char \<Rightarrow> bool" where
  "py_islower_char c = (let n = (of_char c :: nat) in
     (97 \<le> n \<and> n \<le> 122) \<or> n = 170 \<or> n = 181 \<or> n = 186 \<or>
     (223 \<le> n \<and> n \<le> 246) \<or> (248 \<le> n \<and> n \<le> 255))"

text \<open>\<open>s.strip()\<close>: white space removed at both ends.\<close>

definition py_strip :: "string \<Rightarrow> string" where
  "py_strip s = rev (dropWhile py_isspace (rev (dropWhile py_isspace s)))"

text \<open>
  \<open>s.split()\<close>: the maximal runs of non-space characters. \<open>cur\<close> is the word being
  read.
\<close>

fun split_ws :: "string \<Rightarrow> string \<Rightarrow> string list" where
  "split_ws cur [] = (if cur = [] then [] else [cur])"
| "split_ws cur (c # cs) =
     (if py_isspace c then (if cur = [] then split_ws [] cs else cur # split_ws [] cs)
      else split_ws (cur @ [c]) cs)"

definition py_split :: "string \<Rightarrow> string list" where
  "py_split s = split_ws [] s"

text \<open>
  \<open>s.isupper()\<close>: no lower-case character and at least one upper-case one. The scan is
  CPython's; \<open>cased\<close> records that an upper-case character was seen.
\<close>

fun isupper_scan :: "bool \<Rightarrow> string \<Rightarrow> bool" where
  "isupper_scan cased [] = cased"
| "isupper_scan cased (c # cs) =
     (if py_islower_char c then False
      else isupper_scan (cased \<or> py_isupper_char c) cs)"

definition py_isupper :: "string \<Rightarrow> bool" where
  "py_isupper s = isupper_scan False s"

text \<open>
  \<open>s.istitle()\<close>: an upper-case character may only follow an uncased one, a lower-case
  character only a cased one, and there is at least one cased character. The scan is
  CPython's, with its two flags.
\<close>

fun istitle_scan :: "bool \<Rightarrow> bool \<Rightarrow> string \<Rightarrow> bool" where
  "istitle_scan cased previous_is_cased [] = cased"
| "istitle_scan cased previous_is_cased (c # cs) =
     (if py_isupper_char c then
        (if previous_is_cased then False else istitle_scan True True cs)
      else if py_islower_char c then
        (if \<not> previous_is_cased then False else istitle_scan True True cs)
      else istitle_scan cased False cs)"

definition py_istitle :: "string \<Rightarrow> bool" where
  "py_istitle s = istitle_scan False False s"

subsection \<open>The numbered-heading pattern\<close>

text \<open>
  Regular expressions as backtracking matchers: a matcher maps the text to the list of
  remainders it can leave, in the order the engine tries them (longest match first).
\<close>

fun re_plus :: "(char \<Rightarrow> bool) \<Rightarrow> string \<Rightarrow> string list" where
  "re_plus p [] = []"
| "re_plus p (c # cs) = (if p c then re_plus p cs @ [cs] else [])"

definition re_star :: "(char \<Rightarrow> bool) \<Rightarrow> string \<Rightarrow> string list" where
  "re_star p s = re_plus p s @ [s]"

definition re_opt :: "(string \<Rightarrow> string list) \<Rightarrow> string \<Rightarrow> string list" where
  "re_opt m s = m s @ [s]"

definition re_seq :: "(string \<Rightarrow> string list) \<Rightarrow> (string \<Rightarrow> string list) \<Rightarrow> string \<Rightarrow> string list" where
  "re_seq m1 m2 s = concat (map m2 (m1 s))"

text \<open>
  \<open>num_heading_re = re.compile(r"^\d+(?:[\.\d]+)?\s+.*")\<close> and
  \<open>bool(num_heading_re.match(text))\<close>: the match is anchored at the start of the text
  only, and the dot matches every character but the line feed.
\<close>

definition num_heading_re :: "string \<Rightarrow> string list" where
  "num_heading_re =
     re_seq (re_plus py_isdecimal)
       (re_seq (re_opt (re_plus (\<lambda>c. c = CHR ''.'' \<or> py_isdecimal c)))
          (re_seq (re_plus py_isspace) (re_star (\<lambda>c. c \<noteq> CHR 0x0A))))"

definition num_heading_re_match :: "string \<Rightarrow> bool" where
  "num_heading_re_match s = (num_heading_re s \<noteq> [])"

section \<open>The document\<close>

text \<open>
  What \<open>page.get_text("dict")\<close> gives for each page of the opened document: a list of
  blocks, each with a type (0 for text) and lines (none for an image block), each line a
  list of spans, each span with its text, its font size and \<open>bbox[1]\<close>, the top edge.
  Font sizes and coordinates are Python floats; the code only compares them and, for
  sizes, subtracts them, so the model leaves both types open.
\<close>

record ('s, 'y) span =
  span_text :: string
  span_size :: 's
  span_bbox1 :: 'y

record ('s, 'y) block =
  block_type :: int
  block_lines :: "('s, 'y) span list list"

type_synonym ('s, 'y) document = "('s, 'y) block list list"

record 'y heading =
  h_page :: nat
  h_y0 :: 'y
  h_text :: string

record content =
  content_section :: string
  content_text :: string

section \<open>infer\_heading\_sizes\<close>

definition infer_heading_sizes :: "'s::{linorder,minus} list \<Rightarrow> error + 's set" where
  "infer_heading_sizes font_sizes =
     (let unique_sizes = sorted_set_reverse font_sizes in
      if length unique_sizes < 2 then Inr (set unique_sizes)
      else
        let diffs = map (\<lambda>i. (unique_sizes ! i - unique_sizes ! (i + 1), i))
                      [0 ..< length unique_sizes - 1] in
        case py_max_key fst diffs of
          Inl e \<Rightarrow> Inl e
        | Inr (max_gap, idx) \<Rightarrow> Inr (set (take (idx + 1) unique_sizes)))"

section \<open>extract\_everything\<close>

subsection \<open>Step 1: font sizes and page blocks\<close>

text \<open>The loop over the lines of a block: one font size for each line that has spans.\<close>

fun step1_lines :: "('s::linorder, 'y) span list list \<Rightarrow> 's list \<Rightarrow> error + 's list" where
  "step1_lines [] font_sizes = Inr font_sizes"
| "step1_lines (spans # ls) font_sizes =
     (if spans = [] then step1_lines ls font_sizes
      else case py_max_key span_size spans of
             Inl e \<Rightarrow> Inl e
           | Inr max_span \<Rightarrow> step1_lines ls (font_sizes @ [span_size max_span]))"

text \<open>The loop over the blocks of a page; \<open>blocks\<close> is the page's list of kept blocks.\<close>

fun step1_blocks :: "('s::linorder, 'y) block list \<Rightarrow> 's list \<Rightarrow> ('s, 'y) block list
    \<Rightarrow> error + ('s list \<times> ('s, 'y) block list)" where
  "step1_blocks [] font_sizes blocks = Inr (font_sizes, blocks)"
| "step1_blocks (b # bs) font_sizes blocks =
     (if block_type b \<noteq> 0 \<or> block_lines b = [] then step1_blocks bs font_sizes blocks
      else case step1_lines (block_lines b) font_sizes of
             Inl e \<Rightarrow> Inl e
           | Inr font_sizes' \<Rightarrow> step1_blocks bs font_sizes' (blocks @ [b]))"

text \<open>The loop over the pages, numbered from \<open>page_num\<close>.\<close>

fun step1_pages :: "nat \<Rightarrow> ('s::linorder, 'y) document \<Rightarrow> 's list
    \<Rightarrow> (nat \<times> ('s, 'y) block list) list
    \<Rightarrow> error + ('s list \<times> (nat \<times> ('s, 'y) block list) list)" where
  "step1_pages page_num [] font_sizes pages_blocks = Inr (font_sizes, pages_blocks)"
| "step1_pages page_num (page # pages) font_sizes pages_blocks =
     (case step1_blocks page font_sizes [] of
        Inl e \<Rightarrow> Inl e
      | Inr (font_sizes', blocks) \<Rightarrow>
          step1_pages (page_num + 1) pages font_sizes' (pages_blocks @ [(page_num, blocks)]))"

definition step1 :: "('s::linorder, 'y) document
    \<Rightarrow> error + ('s list \<times> (nat \<times> ('s, 'y) block list) list)" where
  "step1 doc = step1_pages 1 doc [] []"

subsection \<open>Step 2: heading font sizes\<close>

text \<open>
  \<open>heading_font_count\<close> is the optional argument: \<open>None\<close> when it is not given. The
  test \<open>if heading_font_count:\<close> is false for \<open>None\<close> and for 0.
\<close>

definition step2 :: "'s::{linorder,minus} list \<Rightarrow> int option \<Rightarrow> error + 's set" where
  "step2 font_sizes heading_font_count =
     (case infer_heading_sizes font_sizes of
        Inl e \<Rightarrow> Inl e
      | Inr heading_sizes \<Rightarrow>
          (case heading_font_count of
             None \<Rightarrow> Inr heading_sizes
           | Some k \<Rightarrow>
               if k \<noteq> 0 then
                 let sorted_sizes = sorted_set_reverse font_sizes;
                     forced = set (py_slice_to k sorted_sizes)
                 in Inr (heading_sizes \<union> forced)
               else Inr heading_sizes))"

subsection \<open>Step 3: heading candidates\<close>

definition block_spans :: "('s, 'y) block \<Rightarrow> ('s, 'y) span list" where
  "block_spans b = concat (block_lines b)"

definition is_heading :: "'s set \<Rightarrow> 's \<Rightarrow> string \<Rightarrow> bool" where
  "is_heading heading_sizes sz txt =
     (sz \<in> heading_sizes \<or> num_heading_re_match txt \<or> py_isupper txt \<or>
      (length (py_split txt) \<le> 5 \<and> py_istitle txt))"

fun step3_blocks :: "'s set \<Rightarrow> nat \<Rightarrow> ('s::linorder, 'y::linorder) block list
    \<Rightarrow> 'y heading list \<Rightarrow> error + 'y heading list" where
  "step3_blocks heading_sizes page_num [] headings = Inr headings"
| "step3_blocks heading_sizes page_num (b # bs) headings =
     (let spans = block_spans b in
      if spans = [] then step3_blocks heading_sizes page_num bs headings
      else
        let txt = py_strip (concat (map span_text spans)) in
        if txt = [] then step3_blocks heading_sizes page_num bs headings
        else case py_max_key span_size spans of
          Inl e \<Rightarrow> Inl e
        | Inr max_span \<Rightarrow>
            if \<not> is_heading heading_sizes (span_size max_span) txt
            then step3_blocks heading_sizes page_num bs headings
            else case py_min (map span_bbox1 spans) of
              Inl e \<Rightarrow> Inl e
            | Inr y0 \<Rightarrow>
                step3_blocks heading_sizes page_num bs
                  (headings @ [\<lparr>h_page = page_num, h_y0 = y0, h_text = txt\<rparr>]))"

fun step3 :: "'s set \<Rightarrow> (nat \<times> ('s::linorder, 'y::linorder) block list) list
    \<Rightarrow> 'y heading list \<Rightarrow> error + 'y heading list" where
  "step3 heading_sizes [] headings = Inr headings"
| "step3 heading_sizes ((page_num, blocks) # rest) headings =
     (case step3_blocks heading_sizes page_num blocks headings of
        Inl e \<Rightarrow> Inl e
      | Inr headings' \<Rightarrow> step3 heading_sizes rest headings')"

subsection \<open>Step 4: blocks in reading order\<close>

fun step4_blocks :: "nat \<Rightarrow> ('s, 'y::linorder) block list
    \<Rightarrow> (nat \<times> ('s, 'y) block \<times> 'y) list \<Rightarrow> error + (nat \<times> ('s, 'y) block \<times> 'y) list" where
  "step4_blocks page_num [] flat_blocks = Inr flat_blocks"
| "step4_blocks page_num (b # bs) flat_blocks =
     (let spans = block_spans b in
      if spans = [] then step4_blocks page_num bs flat_blocks
      else case py_min (map span_bbox1 spans) of
        Inl e \<Rightarrow> Inl e
      | Inr y0 \<Rightarrow> step4_blocks page_num bs (flat_blocks @ [(page_num, b, y0)]))"

fun step4 :: "(nat \<times> ('s, 'y::linorder) block list) list
    \<Rightarrow> (nat \<times> ('s, 'y) block \<times> 'y) list \<Rightarrow> error + (nat \<times> ('s, 'y) block \<times> 'y) list" where
  "step4 [] flat_blocks = Inr flat_blocks"
| "step4 ((page_num, blocks) # rest) flat_blocks =
     (case step4_blocks page_num blocks flat_blocks of
        Inl e \<Rightarrow> Inl e
      | Inr flat_blocks' \<Rightarrow> step4 rest flat_blocks')"

subsection \<open>Step 5: blocks grouped under each heading\<close>

text \<open>
  The end of a section is the next heading, or \<open>(inf, inf)\<close> after the last one:
  \<open>None\<close> here, since every page number is below \<open>inf\<close>.
\<close>

definition in_section :: "nat \<times> 'y::linorder \<Rightarrow> (nat \<times> 'y) option \<Rightarrow> nat \<Rightarrow> 'y \<Rightarrow> bool" where
  "in_section start end_opt pg y0 =
     (case start of (start_pg, start_y) \<Rightarrow>
        (pg > start_pg \<or> (pg = start_pg \<and> y0 \<ge> start_y)) \<and>
        (case end_opt of
           None \<Rightarrow> True
         | Some (end_pg, end_y) \<Rightarrow> pg < end_pg \<or> (pg = end_pg \<and> y0 < end_y)))"

definition block_body :: "('s, 'y) block \<Rightarrow> string" where
  "block_body b = py_join [CHR 0x0A] (map (\<lambda>line. concat (map span_text line)) (block_lines b))"

fun section_texts :: "nat \<times> 'y::linorder \<Rightarrow> (nat \<times> 'y) option
    \<Rightarrow> (nat \<times> ('s, 'y) block \<times> 'y) list \<Rightarrow> string list \<Rightarrow> string list" where
  "section_texts start end_opt [] texts = texts"
| "section_texts start end_opt ((pg, b, y0) # rest) texts =
     (if in_section start end_opt pg y0
      then section_texts start end_opt rest (texts @ [block_body b])
      else section_texts start end_opt rest texts)"

definition section_bounds :: "'y heading list \<Rightarrow> nat \<Rightarrow> (nat \<times> 'y) \<times> (nat \<times> 'y) option" where
  "section_bounds headings idx =
     ((h_page (headings ! idx), h_y0 (headings ! idx)),
      (if idx + 1 < length headings
       then Some (h_page (headings ! (idx + 1)), h_y0 (headings ! (idx + 1)))
       else None))"

definition section_at :: "'y::linorder heading list \<Rightarrow> (nat \<times> ('s, 'y) block \<times> 'y) list
    \<Rightarrow> nat \<Rightarrow> content" where
  "section_at headings flat_blocks idx =
     (case section_bounds headings idx of (start, end_opt) \<Rightarrow>
        let texts = section_texts start end_opt flat_blocks [];
            section_body = py_strip (py_join [CHR 0x0A] texts)
        in \<lparr>content_section = h_text (headings ! idx), content_text = section_body\<rparr>)"

definition step5 :: "'y::linorder heading list \<Rightarrow> (nat \<times> ('s, 'y) block \<times> 'y) list
    \<Rightarrow> content list" where
  "step5 headings flat_blocks = map (section_at headings flat_blocks) [0 ..< length headings]"

subsection \<open>The whole function\<close>

text \<open>
  \<open>fitz_open\<close> stands for \<open>fitz.open\<close> followed by \<open>get_text("dict")\<close> on every page:
  the decoded document, or the error of a file that cannot be decoded. The result is the
  list under the key "content" of the dictionary the function returns.
\<close>

definition sorted_headings :: "'y::linorder heading list \<Rightarrow> 'y heading list" where
  "sorted_headings headings = sort_key (\<lambda>h. (h_page h, h_y0 h)) headings"

definition sorted_flat_blocks :: "(nat \<times> ('s, 'y::linorder) block \<times> 'y) list
    \<Rightarrow> (nat \<times> ('s, 'y) block \<times> 'y) list" where
  "sorted_flat_blocks flat_blocks = sort_key (\<lambda>x. (fst x, snd (snd x))) flat_blocks"

definition extract_everything :: "('p \<Rightarrow> error + ('s::{linorder,minus}, 'y::linorder) document)
    \<Rightarrow> 'p \<Rightarrow> int option \<Rightarrow> error + content list" where
  "extract_everything fitz_open pdf_path heading_font_count =
     (case fitz_open pdf_path of
        Inl e \<Rightarrow> Inl e
      | Inr doc \<Rightarrow>
     (case step1 doc of
        Inl e \<Rightarrow> Inl e
      | Inr (font_sizes, pages_blocks) \<Rightarrow>
     (case step2 font_sizes heading_font_count of
        Inl e \<Rightarrow> Inl e
      | Inr heading_sizes \<Rightarrow>
     (case step3 heading_sizes pages_blocks [] of
        Inl e \<Rightarrow> Inl e
      | Inr headings \<Rightarrow>
     (case step4 pages_blocks [] of
        Inl e \<Rightarrow> Inl e
      | Inr flat_blocks \<Rightarrow>
          Inr (step5 (sorted_headings headings) (sorted_flat_blocks flat_blocks)))))))"

subsection \<open>The local variables of extract\_everything\<close>

text \<open>
  \<open>headings_of\<close> is the list \<open>headings\<close> after it is sorted (line 116) and
  \<open>flat_blocks_of\<close> the list \<open>flat_blocks\<close> after it is sorted (line 127), for a
  decoded document: the same calls, in the same order, as in \<open>extract_everything\<close>.
\<close>

definition headings_of :: "('s::{linorder,minus}, 'y::linorder) document \<Rightarrow> int option
    \<Rightarrow> error + 'y heading list" where
  "headings_of doc heading_font_count =
     (case step1 doc of
        Inl e \<Rightarrow> Inl e
      | Inr (font_sizes, pages_blocks) \<Rightarrow>
     (case step2 font_sizes heading_font_count of
        Inl e \<Rightarrow> Inl e
      | Inr heading_sizes \<Rightarrow>
     (case step3 heading_sizes pages_blocks [] of
        Inl e \<Rightarrow> Inl e
      | Inr headings \<Rightarrow> Inr (sorted_headings headings))))"

definition flat_blocks_of :: "('s::linorder, 'y::linorder) document
    \<Rightarrow> error + (nat \<times> ('s, 'y) block \<times> 'y) list" where
  "flat_blocks_of doc =
     (case step1 doc of
        Inl e \<Rightarrow> Inl e
      | Inr (font_sizes, pages_blocks) \<Rightarrow>
     (case step4 pages_blocks [] of
        Inl e \<Rightarrow> Inl e
      | Inr flat_blocks \<Rightarrow> Inr (sorted_flat_blocks flat_blocks)))"

text \<open>\<open>heading_sizes_of\<close> is the set \<open>heading_sizes\<close> after step 2 (line 81).\<close>

definition heading_sizes_of :: "('s::{linorder,minus}, 'y) document \<Rightarrow> int option \<Rightarrow> error + 's set" where
  "heading_sizes_of doc heading_font_count =
     (case step1 doc of
        Inl e \<Rightarrow> Inl e
      | Inr (font_sizes, pages_blocks) \<Rightarrow> step2 font_sizes heading_font_count)"

text \<open>The test of lines 142 and 143 for the heading at index \<open>idx\<close>.\<close>

definition in_section_at :: "'y::linorder heading list \<Rightarrow> nat \<Rightarrow> nat \<Rightarrow> 'y \<Rightarrow> bool" where
  "in_section_at headings idx pg y0 =
     (case section_bounds headings idx of (start, end_opt) \<Rightarrow> in_section start end_opt pg y0)"

section \<open>Notions used to state the properties\<close>

text \<open>
  A text block is a block the first loop keeps. The derived attributes of a block with
  spans: its dominant font size (the largest span size), its top edge (the smallest
  \<open>bbox[1]\<close> of its spans) and its trimmed text.
\<close>

definition text_block :: "('s, 'y) block \<Rightarrow> bool" where
  "text_block b = (block_type b = 0 \<and> block_lines b \<noteq> [])"

definition line_max_size :: "('s::linorder, 'y) span list \<Rightarrow> 's" where
  "line_max_size spans = Max (span_size ` set spans)"

definition block_size :: "('s::linorder, 'y) block \<Rightarrow> 's" where
  "block_size b = Max (span_size ` set (block_spans b))"

definition block_y0 :: "('s, 'y::linorder) block \<Rightarrow> 'y" where
  "block_y0 b = Min (span_bbox1 ` set (block_spans b))"

definition block_text :: "('s, 'y) block \<Rightarrow> string" where
  "block_text b = py_strip (concat (map span_text (block_spans b)))"

text \<open>
  A heading block for a set of heading sizes, and the heading candidate it gives on a
  page.
\<close>

definition heading_block :: "'s set \<Rightarrow> ('s::linorder, 'y) block \<Rightarrow> bool" where
  "heading_block heading_sizes b =
     (block_spans b \<noteq> [] \<and> block_text b \<noteq> [] \<and>
      is_heading heading_sizes (block_size b) (block_text b))"

definition heading_of :: "nat \<Rightarrow> ('s, 'y::linorder) block \<Rightarrow> 'y heading" where
  "heading_of page_num b = \<lparr>h_page = page_num, h_y0 = block_y0 b, h_text = block_text b\<rparr>"

text \<open>The position of a heading, the key both lists are sorted by.\<close>

definition h_pos :: "'y heading \<Rightarrow> nat \<times> 'y" where
  "h_pos h = (h_page h, h_y0 h)"

text \<open>
  The pages with their numbers and their text blocks; the font sizes, the heading
  candidates and the positioned blocks read off them, in collection order.
\<close>

definition numbered_pages :: "nat \<Rightarrow> ('s, 'y) document \<Rightarrow> (nat \<times> ('s, 'y) block list) list" where
  "numbered_pages n doc =
     map (\<lambda>(i, page). (i, filter text_block page)) (zip [n ..< n + length doc] doc)"

definition doc_pages_blocks :: "('s, 'y) document \<Rightarrow> (nat \<times> ('s, 'y) block list) list" where
  "doc_pages_blocks doc = numbered_pages 1 doc"

definition block_font_sizes :: "('s::linorder, 'y) block \<Rightarrow> 's list" where
  "block_font_sizes b = map line_max_size (filter (\<lambda>spans. spans \<noteq> []) (block_lines b))"

definition doc_font_sizes :: "('s::linorder, 'y) document \<Rightarrow> 's list" where
  "doc_font_sizes doc =
     concat (map (\<lambda>page. concat (map block_font_sizes (filter text_block page))) doc)"

definition candidates :: "'s set \<Rightarrow> (nat \<times> ('s::linorder, 'y::linorder) block list) list
    \<Rightarrow> 'y heading list" where
  "candidates heading_sizes pages_blocks =
     concat (map (\<lambda>(page_num, blocks).
                    map (heading_of page_num) (filter (heading_block heading_sizes) blocks))
               pages_blocks)"

definition positioned :: "(nat \<times> ('s, 'y::linorder) block list) list
    \<Rightarrow> (nat \<times> ('s, 'y) block \<times> 'y) list" where
  "positioned pages_blocks =
     concat (map (\<lambda>(page_num, blocks).
                    map (\<lambda>b. (page_num, b, block_y0 b)) (filter (\<lambda>b. block_spans b \<noteq> []) blocks))
               pages_blocks)"

section \<open>Readings of the specification and sample documents\<close>

text \<open>
  Following the specification's words (section 2, Font Size Profiler): "aggregates every
  span's font size across the whole document", for the text blocks of the document.
\<close>

definition all_span_sizes :: "('s, 'y) document \<Rightarrow> 's list" where
  "all_span_sizes doc = map span_size (concat (map block_spans (filter text_block (concat doc))))"

text \<open>
  Following the specification's words (section 4.4): "every word's first letter
  capitalized", for the white-space-delimited words of a text; the first letter of a word
  is its first cased character.
\<close>

definition cased_char :: "char \<Rightarrow> bool" where
  "cased_char c = (py_isupper_char c \<or> py_islower_char c)"

definition every_word_capitalized :: "string \<Rightarrow> bool" where
  "every_word_capitalized s =
     list_all (\<lambda>w. case filter cased_char w of [] \<Rightarrow> True | c # _ \<Rightarrow> py_isupper_char c)
       (py_split s)"

text \<open>
  Title case as \<open>str.istitle\<close> has it: there is a cased character, every upper-case
  character follows an uncased one (or starts the text) and every lower-case character
  follows a cased one. Each character is paired with its predecessor, a space standing
  before the first.
\<close>

definition title_cased :: "string \<Rightarrow> bool" where
  "title_cased s =
     (list_ex cased_char s \<and>
      list_all (\<lambda>(p, c). (py_isupper_char c \<longrightarrow> \<not> cased_char p) \<and>
                         (py_islower_char c \<longrightarrow> cased_char p))
        (zip (CHR '' '' # s) s))"

text \<open>Spans and text blocks of sample documents, with integer sizes and coordinates.\<close>

definition ex_span :: "string \<Rightarrow> int \<Rightarrow> int \<Rightarrow> (int, int) span" where
  "ex_span t sz y = \<lparr>span_text = t, span_size = sz, span_bbox1 = y\<rparr>"

definition ex_block :: "(int, int) span list list \<Rightarrow> (int, int) block" where
  "ex_block ls = \<lparr>block_type = 0, block_lines = ls\<rparr>"

section \<open>Facts about the primitives\<close>

lemma max_key_from_split:
  "\<exists>pre post. best # xs = pre @ max_key_from f best xs # post \<and>
     (\<forall>a\<in>set pre. f a < f (max_key_from f best xs)) \<and>
     (\<forall>a\<in>set post. f a \<le> f (max_key_from f best xs))"
proof (induction xs arbitrary: best)
  case Nil
  show ?case by (intro exI[of _ "[]"]) simp
next
  case (Cons x xs)
  define b where "b = (if f best < f x then x else best)"
  define r where "r = max_key_from f b xs"
  from Cons.IH[of b] obtain pre post where
    sp: "b # xs = pre @ r # post" and
    lt: "\<forall>a\<in>set pre. f a < f r" and le: "\<forall>a\<in>set post. f a \<le> f r"
    unfolding r_def by blast
  have r: "max_key_from f best (x # xs) = r" by (simp add: r_def b_def)
  have bb: "f best \<le> f b" "f x \<le> f b" by (auto simp: b_def)
  show ?case
  proof (cases pre)
    case Nil
    with sp have br: "b = r" and xp: "xs = post" by auto
    show ?thesis
    proof (cases "f best < f x")
      case True
      then have "b = x" by (simp add: b_def)
      with br xp True le have "best # x # xs = [best] @ r # post \<and>
        (\<forall>a\<in>set [best]. f a < f r) \<and> (\<forall>a\<in>set post. f a \<le> f r)" by auto
      then show ?thesis unfolding r by blast
    next
      case False
      then have "b = best" by (simp add: b_def)
      with br xp False le have "best # x # xs = [] @ r # (x # post) \<and>
        (\<forall>a\<in>set []. f a < f r) \<and> (\<forall>a\<in>set (x # post). f a \<le> f r)" by auto
      then show ?thesis unfolding r by blast
    qed
  next
    case (Cons p pre')
    with sp have pb: "p = b" and xs: "xs = pre' @ r # post" by auto
    from lt Cons pb have "f b < f r" by simp
    with bb have "f best < f r" "f x < f r" by auto
    with lt Cons xs le have "best # x # xs = (best # x # pre') @ r # post \<and>
        (\<forall>a\<in>set (best # x # pre'). f a < f r) \<and> (\<forall>a\<in>set post. f a \<le> f r)" by auto
    then show ?thesis unfolding r by blast
  qed
qed

lemma py_max_key_index:
  assumes "xs \<noteq> []"
  shows "\<exists>k<length xs. py_max_key f xs = Inr (xs ! k) \<and>
           (\<forall>j<length xs. f (xs ! j) \<le> f (xs ! k)) \<and> (\<forall>j<k. f (xs ! j) < f (xs ! k))"
proof -
  from assms obtain x rest where xs: "xs = x # rest" by (cases xs) auto
  define r where "r = max_key_from f x rest"
  from max_key_from_split[of x rest f] obtain pre post where
    sp: "xs = pre @ r # post" and
    lt: "\<forall>a\<in>set pre. f a < f r" and le: "\<forall>a\<in>set post. f a \<le> f r"
    unfolding r_def xs by blast
  have k: "length pre < length xs" "xs ! length pre = r" by (simp_all add: sp)
  have pm: "py_max_key f xs = Inr r" by (simp add: py_max_key_def xs r_def)
  have a: "\<forall>j<length xs. f (xs ! j) \<le> f r"
  proof (intro allI impI)
    fix j assume "j < length xs"
    then have "xs ! j \<in> set xs" by simp
    then have "xs ! j \<in> set pre \<or> xs ! j = r \<or> xs ! j \<in> set post" by (auto simp: sp)
    with lt le show "f (xs ! j) \<le> f r" by (auto simp: less_imp_le)
  qed
  have b: "\<forall>j<length pre. f (xs ! j) < f r"
    using lt by (simp add: sp nth_append)
  from k pm a b show ?thesis by metis
qed

lemma sorted_set_reverse_props:
  "sorted_wrt (>) (sorted_set_reverse xs)" "set (sorted_set_reverse xs) = set xs"
  "length (sorted_set_reverse xs) = card (set xs)" "distinct (sorted_set_reverse xs)"
  unfolding sorted_set_reverse_def
  by (simp_all add: sorted_wrt_rev strict_sorted_iff distinct_card length_remdups_card_conv)

section \<open>The knee detector\<close>

lemma infer_heading_sizes_gap:
  fixes font_sizes :: "'s::{linorder,minus} list"
  assumes "2 \<le> card (set font_sizes)"
  shows "\<exists>us i. sorted_wrt (>) us \<and> set us = set font_sizes \<and> Suc i < length us \<and>
              (\<forall>j. Suc j < length us \<longrightarrow> us ! j - us ! Suc j \<le> us ! i - us ! Suc i) \<and>
              (\<forall>j<i. us ! j - us ! Suc j < us ! i - us ! Suc i) \<and>
              infer_heading_sizes font_sizes = Inr (set (take (Suc i) us))"
proof -
  define us where "us = sorted_set_reverse font_sizes"
  define diffs where "diffs = map (\<lambda>i. (us ! i - us ! (i + 1), i)) [0 ..< length us - 1]"
  have len: "2 \<le> length us" using assms by (simp add: us_def sorted_set_reverse_props)
  then have ne: "diffs \<noteq> []" by (simp add: diffs_def)
  have ld: "length diffs = length us - 1" by (simp add: diffs_def)
  from py_max_key_index[OF ne, of fst] obtain k where
    k: "k < length diffs" and pm: "py_max_key fst diffs = Inr (diffs ! k)" and
    all: "\<forall>j<length diffs. fst (diffs ! j) \<le> fst (diffs ! k)" and
    first: "\<forall>j<k. fst (diffs ! j) < fst (diffs ! k)" by blast
  have nth: "\<And>j. j < length us - 1 \<Longrightarrow> diffs ! j = (us ! j - us ! Suc j, j)"
    by (simp add: diffs_def)
  have "infer_heading_sizes font_sizes =
          (case py_max_key fst diffs of Inl e \<Rightarrow> Inl e
           | Inr (max_gap, idx) \<Rightarrow> Inr (set (take (idx + 1) us)))"
    using len unfolding infer_heading_sizes_def Let_def us_def diffs_def by simp
  then have res: "infer_heading_sizes font_sizes = Inr (set (take (Suc k) us))"
    using pm k nth[of k] ld by simp
  have a: "\<forall>j. Suc j < length us \<longrightarrow> us ! j - us ! Suc j \<le> us ! k - us ! Suc k"
    using all k ld nth by (auto simp: less_diff_conv)
  have b: "\<forall>j<k. us ! j - us ! Suc j < us ! k - us ! Suc k"
    using first k ld nth by auto
  have "sorted_wrt (>) us" "set us = set font_sizes" "Suc k < length us"
    using k ld by (auto simp: us_def sorted_set_reverse_props)
  with a b res show ?thesis by blast
qed

lemma infer_heading_sizes_few:
  fixes font_sizes :: "'s::{linorder,minus} list"
  assumes "card (set font_sizes) < 2"
  shows "infer_heading_sizes font_sizes = Inr (set font_sizes)"
  using assms by (simp add: infer_heading_sizes_def Let_def sorted_set_reverse_props)

text \<open>
  C1. With at least two distinct font sizes, the classifier returns the sizes of a prefix
  of \<open>us\<close>, the distinct sizes in strictly descending order: the prefix that ends at
  position \<open>i\<close>, just above the gap between \<open>us ! i\<close> and \<open>us ! Suc i\<close>. That gap is
  a largest one among the adjacent gaps, and every gap before it is strictly smaller, so
  among equal largest gaps the first one (between the largest sizes) is chosen. With fewer
  than two distinct sizes the classifier returns all of them. The sizes 20, 18, 12, 11, 10
  give \<open>{20, 18}\<close>, no size gives the empty set and the single size 12 gives \<open>{12}\<close>.
\<close>

theorem infer_heading_sizes_knee:
  fixes font_sizes :: "'s::{linorder,minus} list"
  shows "(2 \<le> card (set font_sizes) \<longrightarrow>
           (\<exists>us i. sorted_wrt (>) us \<and> set us = set font_sizes \<and> Suc i < length us \<and>
              (\<forall>j. Suc j < length us \<longrightarrow> us ! j - us ! Suc j \<le> us ! i - us ! Suc i) \<and>
              (\<forall>j<i. us ! j - us ! Suc j < us ! i - us ! Suc i) \<and>
              infer_heading_sizes font_sizes = Inr (set (take (Suc i) us))))
       \<and> (card (set font_sizes) < 2 \<longrightarrow> infer_heading_sizes font_sizes = Inr (set font_sizes))
       \<and> infer_heading_sizes [20, 18, 12, 11, 10 :: real] = Inr {20, 18}
       \<and> infer_heading_sizes ([] :: real list) = Inr {}
       \<and> infer_heading_sizes [12 :: real] = Inr {12}"
proof (intro conjI impI)
  show "infer_heading_sizes [20, 18, 12, 11, 10 :: real] = Inr {20, 18}"
    by (simp add: infer_heading_sizes_def sorted_set_reverse_def py_max_key_def Let_def upt_rec)
  show "infer_heading_sizes ([] :: real list) = Inr {}"
    by (simp add: infer_heading_sizes_def sorted_set_reverse_def)
  show "infer_heading_sizes [12 :: real] = Inr {12}"
    by (simp add: infer_heading_sizes_def sorted_set_reverse_def)
qed (erule infer_heading_sizes_gap, erule infer_heading_sizes_few)

theorem infer_heading_sizes_knee_witness:
  "2 \<le> card (set [10, 20, 12, 20, 18 :: int]) \<and>
   (\<exists>us i. sorted_wrt (>) us \<and> set us = set [10, 20, 12, 20, 18 :: int] \<and> Suc i < length us \<and>
      (\<forall>j. Suc j < length us \<longrightarrow> us ! j - us ! Suc j \<le> us ! i - us ! Suc i) \<and>
      (\<forall>j<i. us ! j - us ! Suc j < us ! i - us ! Suc i) \<and>
      infer_heading_sizes [10, 20, 12, 20, 18 :: int] = Inr (set (take (Suc i) us)))"
proof -
  have h: "2 \<le> card (set [10, 20, 12, 20, 18 :: int])" by (simp add: card_insert_if)
  from infer_heading_sizes_knee[of "[10, 20, 12, 20, 18 :: int]"] h show ?thesis by blast
qed

section \<open>The loops of extract\_everything\<close>

lemma py_max_key_Max:
  assumes "xs \<noteq> []"
  shows "\<exists>m. py_max_key f xs = Inr m \<and> m \<in> set xs \<and> f m = Max (f ` set xs)"
proof -
  from py_max_key_index[OF assms, of f] obtain k where
    k: "k < length xs" and pm: "py_max_key f xs = Inr (xs ! k)" and
    all: "\<forall>j<length xs. f (xs ! j) \<le> f (xs ! k)" by blast
  have "Max (f ` set xs) = f (xs ! k)"
  proof (rule Max_eqI)
    show "finite (f ` set xs)" by simp
    show "f (xs ! k) \<in> f ` set xs" using k by simp
    fix y assume "y \<in> f ` set xs"
    then obtain j where "j < length xs" "y = f (xs ! j)" by (auto simp: in_set_conv_nth)
    with all show "y \<le> f (xs ! k)" by simp
  qed
  with pm k show ?thesis by auto
qed

lemma min_from_Min: "min_from best xs = Min (set (best # xs))"
proof (induction xs arbitrary: best)
  case Nil
  show ?case by simp
next
  case (Cons x xs)
  have "Min (insert best (insert x (set xs))) = Min (insert (if x < best then x else best) (set xs))"
    by (cases "set xs = {}") (auto simp: min_def)
  with Cons show ?case by simp
qed

lemma py_min_Min: "xs \<noteq> [] \<Longrightarrow> py_min xs = Inr (Min (set xs))"
  by (cases xs) (simp_all add: py_min_def min_from_Min)

lemma step1_lines_eq:
  "step1_lines ls fs = Inr (fs @ map line_max_size (filter (\<lambda>spans. spans \<noteq> []) ls))"
proof (induction ls arbitrary: fs)
  case Nil
  show ?case by simp
next
  case (Cons spans ls)
  show ?case
  proof (cases "spans = []")
    case True
    with Cons show ?thesis by simp
  next
    case False
    from py_max_key_Max[OF False, of span_size] obtain m where
      "py_max_key span_size spans = Inr m" "span_size m = line_max_size spans"
      by (auto simp: line_max_size_def)
    with False Cons show ?thesis by simp
  qed
qed

lemma step1_blocks_eq:
  "step1_blocks bs fs blocks =
     Inr (fs @ concat (map block_font_sizes (filter text_block bs)), blocks @ filter text_block bs)"
  by (induction bs arbitrary: fs blocks)
     (auto simp: step1_lines_eq text_block_def block_font_sizes_def)

lemma step1_pages_eq:
  "step1_pages n doc fs pbs = Inr (fs @ doc_font_sizes doc, pbs @ numbered_pages n doc)"
proof (induction doc arbitrary: n fs pbs)
  case Nil
  show ?case by (simp add: doc_font_sizes_def numbered_pages_def)
next
  case (Cons page doc)
  have u: "[n ..< n + length (page # doc)] = n # [Suc n ..< n + length (page # doc)]"
    by (rule upt_conv_Cons) simp
  have e: "n + length (page # doc) = Suc n + length doc" by simp
  have z: "zip [n ..< n + length (page # doc)] (page # doc) = (n, page) # zip [Suc n ..< Suc n + length doc] doc"
    by (simp only: u zip_Cons_Cons) (simp only: e)
  show ?case
    using Cons[of "Suc n"] unfolding numbered_pages_def z
    by (simp add: step1_blocks_eq doc_font_sizes_def)
qed

lemma step1_eq: "step1 doc = Inr (doc_font_sizes doc, doc_pages_blocks doc)"
  by (simp add: step1_def step1_pages_eq doc_pages_blocks_def)

lemma infer_heading_sizes_total: "\<exists>S. infer_heading_sizes fs = Inr S"
proof (cases "2 \<le> card (set fs)")
  case True
  from infer_heading_sizes_gap[OF True] show ?thesis by blast
next
  case False
  then have "card (set fs) < 2" by simp
  from infer_heading_sizes_few[OF this] show ?thesis by blast
qed

lemma step2_total: "\<exists>S. step2 fs k = Inr S"
  using infer_heading_sizes_total[of fs]
  by (auto simp: step2_def Let_def split: option.splits)

lemma step3_blocks_eq:
  "step3_blocks S pn bs hs = Inr (hs @ map (heading_of pn) (filter (heading_block S) bs))"
proof (induction bs arbitrary: hs)
  case Nil
  show ?case by simp
next
  case (Cons b bs)
  show ?case
  proof (cases "block_spans b = []")
    case True
    with Cons show ?thesis by (simp add: heading_block_def)
  next
    case False
    from py_max_key_Max[OF False, of span_size] obtain m where
      m: "py_max_key span_size (block_spans b) = Inr m" "span_size m = block_size b"
      by (auto simp: block_size_def)
    have y: "py_min (map span_bbox1 (block_spans b)) = Inr (block_y0 b)"
      using False by (simp add: py_min_Min block_y0_def)
    show ?thesis using False m y Cons
      by (simp add: heading_block_def heading_of_def Let_def block_text_def)
  qed
qed

lemma step3_eq: "step3 S pbs hs = Inr (hs @ candidates S pbs)"
  by (induction pbs arbitrary: hs) (auto simp: step3_blocks_eq candidates_def)

lemma step4_blocks_eq:
  "step4_blocks pn bs flat =
     Inr (flat @ map (\<lambda>b. (pn, b, block_y0 b)) (filter (\<lambda>b. block_spans b \<noteq> []) bs))"
  by (induction bs arbitrary: flat) (auto simp: Let_def py_min_Min block_y0_def)

lemma step4_eq: "step4 pbs flat = Inr (flat @ positioned pbs)"
  by (induction pbs arbitrary: flat) (auto simp: step4_blocks_eq positioned_def)

lemma section_texts_eq:
  "section_texts start end_opt flat texts =
     texts @ map (\<lambda>(pg, b, y0). block_body b) (filter (\<lambda>(pg, b, y0). in_section start end_opt pg y0) flat)"
  by (induction flat arbitrary: texts) auto

lemma headings_of_eq:
  assumes "step2 (doc_font_sizes doc) k = Inr S"
  shows "headings_of doc k = Inr (sorted_headings (candidates S (doc_pages_blocks doc)))"
  using assms by (simp add: headings_of_def step1_eq step3_eq)

lemma headings_of_total: "\<exists>hs. headings_of doc k = Inr hs"
  using step2_total[of "doc_font_sizes doc" k] headings_of_eq by blast

lemma flat_blocks_of_eq:
  "flat_blocks_of doc = Inr (sorted_flat_blocks (positioned (doc_pages_blocks doc)))"
  by (simp add: flat_blocks_of_def step1_eq step4_eq)

lemma extract_everything_eq:
  assumes "fitz_open pdf_path = Inr doc" "headings_of doc k = Inr hs" "flat_blocks_of doc = Inr flat"
  shows "extract_everything fitz_open pdf_path k = Inr (step5 hs flat)"
  using assms
  by (auto simp: extract_everything_def headings_of_def flat_blocks_of_def split: sum.splits)

section \<open>The font sizes handed to the classifier\<close>

lemma concat_map_if_filter:
  "concat (map (\<lambda>x. if P x then f x else []) xs) = concat (map f (filter P xs))"
  by (induction xs) auto

lemma doc_font_sizes_comprehension:
  "doc_font_sizes doc =
     [Max (span_size ` set spans). page \<leftarrow> doc, b \<leftarrow> page,
        block_type b = 0 \<and> block_lines b \<noteq> [], spans \<leftarrow> block_lines b, spans \<noteq> []]"
proof -
  have l: "\<And>b. concat (map (\<lambda>spans. if spans \<noteq> [] then [Max (span_size ` set spans)] else [])
                     (block_lines b)) = block_font_sizes b"
    by (simp add: block_font_sizes_def concat_map_if_filter line_max_size_def[abs_def])
  show ?thesis
    unfolding doc_font_sizes_def l
    by (simp add: concat_map_if_filter text_block_def[abs_def])
qed

text \<open>
  C2, as amended. The list of font sizes that the first loop collects, and that
  \<open>extract_everything\<close> hands to the classifier, holds one entry for every line with at
  least one span, of every text block (type 0, with lines) of every page, in document
  order: the largest font size among the spans of that line. It holds nothing else;
  spans that are not the largest of their line leave no entry.
\<close>

theorem step1_font_sizes:
  "\<exists>pages_blocks. step1 doc =
     Inr ([Max (span_size ` set spans). page \<leftarrow> doc, b \<leftarrow> page,
             block_type b = 0 \<and> block_lines b \<noteq> [], spans \<leftarrow> block_lines b, spans \<noteq> []],
          pages_blocks)"
  by (simp add: step1_eq doc_font_sizes_comprehension)

theorem step1_font_sizes_witness:
  "\<exists>pages_blocks.
     step1 [[ex_block [[ex_span ''a'' 10 0, ex_span ''b'' 12 0], [], [ex_span ''c'' 9 5]],
             \<lparr>block_type = 1, block_lines = [[ex_span ''d'' 30 7]]\<rparr>]] =
     Inr ([12, 9], pages_blocks)"
  using step1_font_sizes[of "[[ex_block [[ex_span ''a'' 10 0, ex_span ''b'' 12 0], [], [ex_span ''c'' 9 5]],
                             \<lparr>block_type = 1, block_lines = [[ex_span ''d'' 30 7]]\<rparr>]]"]
  by (simp add: ex_block_def ex_span_def)

text \<open>
  C2 as stated fails: a text block with one line of two spans, of sizes 10 and 12, gives
  the classifier the single size 12, while the spans' sizes are 10 and 12.
\<close>

theorem step1_every_span_counterexample:
  "step1 [[ex_block [[ex_span ''a'' 10 0, ex_span ''b'' 12 0]]]] =
     Inr ([12], [(1, [ex_block [[ex_span ''a'' 10 0, ex_span ''b'' 12 0]]])]) \<and>
   all_span_sizes [[ex_block [[ex_span ''a'' 10 0, ex_span ''b'' 12 0]]]] = [10, 12]"
  by (simp add: step1_def py_max_key_def ex_block_def ex_span_def all_span_sizes_def
      text_block_def block_spans_def)

section \<open>The forced floor on heading sizes\<close>

lemma greater_in_descending:
  fixes us :: "'a::linorder list"
  assumes "sorted_wrt (>) us" "i < length us"
  shows "{t \<in> set us. us ! i < t} = set (take i us)"
proof (intro set_eqI iffI)
  fix t assume "t \<in> {t \<in> set us. us ! i < t}"
  then obtain j where j: "j < length us" "t = us ! j" "us ! i < us ! j"
    by (auto simp: in_set_conv_nth)
  have "j < i"
  proof (rule ccontr)
    assume "\<not> j < i"
    then have "j = i \<or> i < j" by auto
    then show False
    proof
      assume "j = i" with j show False by simp
    next
      assume "i < j"
      from sorted_wrt_nth_less[OF assms(1) this j(1)] j(3) show False by simp
    qed
  qed
  with j show "t \<in> set (take i us)" by (auto simp: in_set_conv_nth)
next
  fix t assume "t \<in> set (take i us)"
  then obtain j where j: "j < i" "j < length us" "t = us ! j"
    using assms(2) by (auto simp: in_set_conv_nth)
  from sorted_wrt_nth_less[OF assms(1) j(1) assms(2)] j show "t \<in> {t \<in> set us. us ! i < t}"
    by simp
qed

lemma top_sizes_in_take:
  fixes fs :: "'a::linorder list"
  assumes "s \<in> set fs" "card {t \<in> set fs. s < t} < K"
  shows "s \<in> set (take K (sorted_set_reverse fs))"
proof -
  define us where "us = sorted_set_reverse fs"
  have sw: "sorted_wrt (>) us" and st: "set us = set fs" and d: "distinct us"
    by (simp_all add: us_def sorted_set_reverse_props)
  from assms(1) st have "s \<in> set us" by simp
  then obtain i where i: "i < length us" "s = us ! i"
    by (auto simp: in_set_conv_nth)
  have "card {t \<in> set fs. s < t} = card (set (take i us))"
    using greater_in_descending[OF sw i(1)] i(2) st by simp
  also have "\<dots> = i" using d i(1) by (simp add: distinct_card)
  finally have "i < K" using assms(2) by simp
  with i show ?thesis unfolding us_def[symmetric] by (auto simp: in_set_conv_nth)
qed

text \<open>
  C7, as amended. For every document and every positive \<open>heading_font_count\<close> \<open>k\<close>, the
  font sizes collected in step 1 are the largest span sizes of the lines (one for each line
  with spans of each text block), step 2 succeeds, and its heading-size set contains the
  top \<open>k\<close> distinct collected sizes: every collected size with fewer than \<open>k\<close> distinct
  collected sizes above it, and so every collected size when there are at most \<open>k\<close>
  distinct ones. On the sizes 20, 12, 11, 10 the gap detector alone selects \<open>{20}\<close>, and
  with \<open>k = 3\<close> the set is \<open>{20, 12, 11}\<close>.
\<close>

theorem step2_forced_floor:
  fixes doc :: "('s::{linorder,minus}, 'y) document"
  assumes "step1 doc = Inr (font_sizes, pages_blocks)" and "0 < k"
  shows "font_sizes =
           [Max (span_size ` set spans). page \<leftarrow> doc, b \<leftarrow> page,
              block_type b = 0 \<and> block_lines b \<noteq> [], spans \<leftarrow> block_lines b, spans \<noteq> []]
       \<and> (\<exists>S. heading_sizes_of doc (Some k) = Inr S \<and> step2 font_sizes (Some k) = Inr S \<and>
            (\<forall>s\<in>set font_sizes. card {t \<in> set font_sizes. s < t} < nat k \<longrightarrow> s \<in> S) \<and>
            (card (set font_sizes) \<le> nat k \<longrightarrow> set font_sizes \<subseteq> S))
       \<and> infer_heading_sizes [20, 12, 11, 10 :: real] = Inr {20}
       \<and> step2 [20, 12, 11, 10 :: real] (Some 3) = Inr {20, 12, 11}"
proof (intro conjI)
  from assms(1) show "font_sizes =
           [Max (span_size ` set spans). page \<leftarrow> doc, b \<leftarrow> page,
              block_type b = 0 \<and> block_lines b \<noteq> [], spans \<leftarrow> block_lines b, spans \<noteq> []]"
    by (simp add: step1_eq doc_font_sizes_comprehension)
  from infer_heading_sizes_total[of font_sizes] obtain S0 where
    S0: "infer_heading_sizes font_sizes = Inr S0" by blast
  define S where "S = S0 \<union> set (take (nat k) (sorted_set_reverse font_sizes))"
  have s2: "step2 font_sizes (Some k) = Inr S"
    using assms(2) S0 by (simp add: step2_def py_slice_to_def S_def)
  have hs: "heading_sizes_of doc (Some k) = Inr S"
    using assms(1) s2 by (simp add: heading_sizes_of_def)
  have a: "\<forall>s\<in>set font_sizes. card {t \<in> set font_sizes. s < t} < nat k \<longrightarrow> s \<in> S"
    using top_sizes_in_take[of _ font_sizes "nat k"] by (auto simp: S_def)
  have b: "card (set font_sizes) \<le> nat k \<longrightarrow> set font_sizes \<subseteq> S"
    by (simp add: S_def sorted_set_reverse_props(2,3) le_sup_iff sup.coboundedI2)
  from hs s2 a b show "\<exists>S. heading_sizes_of doc (Some k) = Inr S \<and> step2 font_sizes (Some k) = Inr S \<and>
            (\<forall>s\<in>set font_sizes. card {t \<in> set font_sizes. s < t} < nat k \<longrightarrow> s \<in> S) \<and>
            (card (set font_sizes) \<le> nat k \<longrightarrow> set font_sizes \<subseteq> S)" by blast
  show i: "infer_heading_sizes [20, 12, 11, 10 :: real] = Inr {20}"
    by (simp add: infer_heading_sizes_def sorted_set_reverse_def py_max_key_def Let_def upt_rec)
  show "step2 [20, 12, 11, 10 :: real] (Some 3) = Inr {20, 12, 11}"
    by (simp add: step2_def i py_slice_to_def sorted_set_reverse_def Let_def)
qed

theorem step2_forced_floor_witness:
  "step1 [[ex_block [[ex_span ''a'' 15 0, ex_span ''A'' 20 0]],
           ex_block [[ex_span ''b'' 12 10], [ex_span ''c'' 11 20], [ex_span ''d'' 10 30]]]] =
     Inr ([20, 12, 11, 10],
          [(1, [ex_block [[ex_span ''a'' 15 0, ex_span ''A'' 20 0]],
                ex_block [[ex_span ''b'' 12 10], [ex_span ''c'' 11 20], [ex_span ''d'' 10 30]]])]) \<and>
   (0::int) < 3 \<and>
   infer_heading_sizes [20, 12, 11, 10 :: int] = Inr {20} \<and>
   (\<exists>S. heading_sizes_of
           [[ex_block [[ex_span ''a'' 15 0, ex_span ''A'' 20 0]],
             ex_block [[ex_span ''b'' 12 10], [ex_span ''c'' 11 20], [ex_span ''d'' 10 30]]]] (Some 3)
           = Inr S \<and>
        step2 [20, 12, 11, 10 :: int] (Some 3) = Inr S \<and> {20, 12, 11} \<subseteq> S)"
proof -
  define D :: "(int, int) document" where "D = [[ex_block [[ex_span ''a'' 15 0, ex_span ''A'' 20 0]],
           ex_block [[ex_span ''b'' 12 10], [ex_span ''c'' 11 20], [ex_span ''d'' 10 30]]]]"
  have h1: "step1 D = Inr ([20, 12, 11, 10], [(1, D ! 0)])"
    unfolding D_def by code_simp
  have h2: "(0::int) < 3" by simp
  have h3: "infer_heading_sizes [20, 12, 11, 10 :: int] = Inr {20}"
    by (simp add: infer_heading_sizes_def sorted_set_reverse_def py_max_key_def Let_def upt_rec)
  from step2_forced_floor[OF h1 h2] obtain S where
    H: "heading_sizes_of D (Some 3) = Inr S" and
    S: "step2 [20, 12, 11, 10 :: int] (Some 3) = Inr S" and
    top: "\<forall>s\<in>set [20, 12, 11, 10 :: int]. card {t \<in> set [20, 12, 11, 10 :: int]. s < t} < nat 3 \<longrightarrow> s \<in> S"
    by blast
  have c: "{t \<in> set [20, 12, 11, 10 :: int]. 20 < t} = {}"
          "{t \<in> set [20, 12, 11, 10 :: int]. 12 < t} = {20}"
          "{t \<in> set [20, 12, 11, 10 :: int]. 11 < t} = {20, 12}"
    by auto
  have "20 \<in> S" "12 \<in> S" "11 \<in> S"
    using top[rule_format, of 20] top[rule_format, of 12] top[rule_format, of 11]
    unfolding c by simp_all
  then have "{20, 12, 11} \<subseteq> S" by simp
  with h1 h2 h3 H S show ?thesis unfolding D_def by auto
qed

text \<open>
  C7 as stated fails for the font sizes of the spans: with a line of two spans of sizes 15
  and 30 and a block of size 10, the spans' two largest distinct sizes are 30 and 15, and
  with \<open>k = 2\<close> the heading-size set is \<open>{30, 10}\<close>, without 15.
\<close>

theorem forced_floor_misses_span_size_counterexample:
  "heading_sizes_of [[ex_block [[ex_span ''a'' 15 0, ex_span ''b'' 30 0]], ex_block [[ex_span ''c'' 10 20]]]]
     (Some 2) = Inr {30, 10} \<and>
   all_span_sizes [[ex_block [[ex_span ''a'' 15 0, ex_span ''b'' 30 0]], ex_block [[ex_span ''c'' 10 20]]]]
     = [15, 30, 10] \<and>
   take 2 (sorted_set_reverse [15, 30, 10 :: int]) = [30, 15] \<and>
   (15::int) \<notin> {30, 10}"
  by code_simp

section \<open>Documents without headings, and failure\<close>

lemma heading_sizes_of_eq: "heading_sizes_of doc k = step2 (doc_font_sizes doc) k"
  by (simp add: heading_sizes_of_def step1_eq)

lemma numbered_pages_set:
  assumes "(pn, bs) \<in> set (numbered_pages n doc)"
  shows "\<exists>page\<in>set doc. bs = filter text_block page"
  using assms by (auto simp: numbered_pages_def dest: set_zip_rightD)

lemma candidates_Nil:
  assumes "\<forall>page\<in>set doc. \<forall>b\<in>set page. text_block b \<longrightarrow> \<not> heading_block S b"
  shows "candidates S (doc_pages_blocks doc) = []"
proof -
  have "filter (heading_block S) bs = []" if "(pn, bs) \<in> set (doc_pages_blocks doc)" for pn bs
  proof -
    from numbered_pages_set[OF that[unfolded doc_pages_blocks_def]] obtain page where "page \<in> set doc" "bs = filter text_block page"
      by blast
    with assms show ?thesis by (auto simp: filter_empty_conv)
  qed
  then show ?thesis by (auto simp: candidates_def)
qed

lemma sorted_headings_Nil: "sorted_headings [] = []"
  by (simp add: sorted_headings_def)

lemma step5_Nil: "step5 [] flat = []"
  by (simp add: step5_def)

lemma extract_everything_decoded:
  assumes "fitz_open pdf_path = Inr doc" "heading_sizes_of doc k = Inr S"
  shows "extract_everything fitz_open pdf_path k =
           Inr (step5 (sorted_headings (candidates S (doc_pages_blocks doc)))
                      (sorted_flat_blocks (positioned (doc_pages_blocks doc))))"
proof -
  from assms(2) have "headings_of doc k = Inr (sorted_headings (candidates S (doc_pages_blocks doc)))"
    by (simp add: heading_sizes_of_eq headings_of_eq)
  with assms(1) show ?thesis
    using extract_everything_eq[where fitz_open = fitz_open and pdf_path = pdf_path and doc = doc and k = k]
    by (simp add: flat_blocks_of_eq)
qed

lemma heading_sizes_of_total: "\<exists>S. heading_sizes_of doc k = Inr S"
  by (simp add: heading_sizes_of_eq step2_total)

lemma extract_everything_total:
  assumes "fitz_open pdf_path = Inr doc"
  shows "\<exists>content. extract_everything fitz_open pdf_path k = Inr content"
proof -
  from heading_sizes_of_total[of doc k] obtain S where S: "heading_sizes_of doc k = Inr S" by blast
  from extract_everything_decoded[where fitz_open = fitz_open, OF assms S] show ?thesis by simp
qed

lemma no_spans_no_heading_block: "block_spans b = [] \<Longrightarrow> \<not> heading_block S b"
  by (simp add: heading_block_def)

text \<open>
  C8. When the document is decoded and no text block is a heading block for the heading
  sizes of step 2, \<open>extract_everything\<close> returns the empty content list; so it does for a
  document without any span. On a decoded document \<open>extract_everything\<close> always returns
  a content list, and when it fails the failure is the one of opening the document.
\<close>

theorem extract_everything_no_headings:
  fixes fitz_open :: "'p \<Rightarrow> error + ('s::{linorder,minus}, 'y::linorder) document"
  shows "(fitz_open pdf_path = Inr doc \<and> heading_sizes_of doc k = Inr S \<and>
          (\<forall>page\<in>set doc. \<forall>b\<in>set page. text_block b \<longrightarrow> \<not> heading_block S b)
            \<longrightarrow> extract_everything fitz_open pdf_path k = Inr [])
       \<and> (fitz_open pdf_path = Inr doc \<and> (\<forall>page\<in>set doc. \<forall>b\<in>set page. block_spans b = [])
            \<longrightarrow> extract_everything fitz_open pdf_path k = Inr [])
       \<and> (fitz_open pdf_path = Inr doc
            \<longrightarrow> (\<exists>content. extract_everything fitz_open pdf_path k = Inr content))
       \<and> (extract_everything fitz_open pdf_path k = Inl e \<longrightarrow> fitz_open pdf_path = Inl e)"
proof (intro conjI impI)
  assume a: "fitz_open pdf_path = Inr doc \<and> heading_sizes_of doc k = Inr S \<and>
          (\<forall>page\<in>set doc. \<forall>b\<in>set page. text_block b \<longrightarrow> \<not> heading_block S b)"
  then have c: "candidates S (doc_pages_blocks doc) = []" by (intro candidates_Nil) blast
  from a have f: "fitz_open pdf_path = Inr doc" and s: "heading_sizes_of doc k = Inr S" by simp_all
  from extract_everything_decoded[where fitz_open = fitz_open, OF f s]
  show "extract_everything fitz_open pdf_path k = Inr []"
    by (simp add: c sorted_headings_Nil step5_Nil)
next
  assume a: "fitz_open pdf_path = Inr doc \<and> (\<forall>page\<in>set doc. \<forall>b\<in>set page. block_spans b = [])"
  from heading_sizes_of_total[of doc k] obtain S' where S': "heading_sizes_of doc k = Inr S'" by blast
  from a have "\<forall>page\<in>set doc. \<forall>b\<in>set page. text_block b \<longrightarrow> \<not> heading_block S' b"
    by (simp add: no_spans_no_heading_block)
  then have c: "candidates S' (doc_pages_blocks doc) = []" by (rule candidates_Nil)
  from a have f: "fitz_open pdf_path = Inr doc" by simp
  from extract_everything_decoded[where fitz_open = fitz_open, OF f S']
  show "extract_everything fitz_open pdf_path k = Inr []"
    by (simp add: c sorted_headings_Nil step5_Nil)
next
  assume "fitz_open pdf_path = Inr doc"
  from extract_everything_total[where fitz_open = fitz_open, OF this]
  show "\<exists>content. extract_everything fitz_open pdf_path k = Inr content" .
next
  assume a: "extract_everything fitz_open pdf_path k = Inl e"
  show "fitz_open pdf_path = Inl e"
  proof (cases "fitz_open pdf_path")
    case (Inl e')
    with a show ?thesis by (simp add: extract_everything_def)
  next
    case (Inr doc')
    from extract_everything_total[where fitz_open = fitz_open, OF Inr, of k] a
    show ?thesis by simp
  qed
qed

theorem extract_everything_no_headings_witness:
  "heading_sizes_of [[ex_block [[ex_span ''   '' 20 10]], ex_block [[ex_span ''plain words here'' 10 50]]]] None
     = Inr {20} \<and>
   \<not> heading_block {20} (ex_block [[ex_span ''   '' 20 10]]) \<and>
   \<not> heading_block {20} (ex_block [[ex_span ''plain words here'' 10 50]]) \<and>
   extract_everything
     (\<lambda>p. Inr [[ex_block [[ex_span ''   '' 20 10]], ex_block [[ex_span ''plain words here'' 10 50]]]])
     ''tender.pdf'' None = Inr [] \<and>
   block_spans (ex_block [[]]) = [] \<and>
   extract_everything (\<lambda>p. Inr [[ex_block [[]]]]) ''tender.pdf'' None = Inr [] \<and>
   extract_everything (\<lambda>p. Inl DocumentParseError :: error + (int, int) document) ''tender.pdf'' None
     = Inl DocumentParseError"
proof -
  define A where "A = ex_block [[ex_span ''   '' 20 10]]"
  define B where "B = ex_block [[ex_span ''plain words here'' 10 50]]"
  define f :: "string \<Rightarrow> error + (int, int) document" where "f = (\<lambda>p. Inr [[A, B]])"
  define g :: "string \<Rightarrow> error + (int, int) document" where "g = (\<lambda>p. Inr [[ex_block [[]]]])"
  define h :: "string \<Rightarrow> error + (int, int) document" where "h = (\<lambda>p. Inl DocumentParseError)"
  have s: "heading_sizes_of [[A, B]] None = Inr {20}" unfolding A_def B_def by code_simp
  have a: "\<not> heading_block {20} A" unfolding A_def by code_simp
  have b: "\<not> heading_block {20} B" unfolding B_def by code_simp
  have n: "block_spans (ex_block [[]]) = []" by code_simp
  have e: "extract_everything h ''tender.pdf'' None = Inl DocumentParseError"
    by (simp add: h_def extract_everything_def)
  have 1: "extract_everything f ''tender.pdf'' None = Inr []"
    using extract_everything_no_headings[of f "''tender.pdf''" "[[A, B]]" None "{20}"] s a b
    by (simp add: f_def)
  have 2: "extract_everything g ''tender.pdf'' None = Inr []"
    using extract_everything_no_headings[of g "''tender.pdf''" "[[ex_block [[]]]]" None] n
    by (simp add: g_def)
  from s a b 1 n 2 e show ?thesis unfolding A_def B_def f_def g_def h_def by blast
qed

section \<open>One section for each heading candidate\<close>

lemma content_section_step5: "map content_section (step5 hs flat) = map h_text hs"
proof -
  have "content_section (section_at hs flat i) = h_text (hs ! i)" for i
    by (simp add: section_at_def Let_def split: prod.splits)
  then have "map content_section (step5 hs flat) = map (\<lambda>i. h_text (hs ! i)) [0 ..< length hs]"
    by (simp add: step5_def)
  also have "\<dots> = map h_text hs" by (rule nth_equalityI) simp_all
  finally show ?thesis .
qed

lemma candidates_text: "h \<in> set (candidates S pbs) \<Longrightarrow> h_text h \<noteq> []"
  by (auto simp: candidates_def heading_block_def heading_of_def)

lemma candidates_comprehension:
  "candidates S pbs =
     [\<lparr>h_page = pn, h_y0 = block_y0 b, h_text = block_text b\<rparr>.
        (pn, blocks) \<leftarrow> pbs, b \<leftarrow> blocks, heading_block S b]"
proof -
  have *: "(\<lambda>(pn, blocks). map (heading_of pn) (filter (heading_block S) blocks))
        = (\<lambda>(pn, blocks). concat (map (\<lambda>b. if heading_block S b
            then [\<lparr>h_page = pn, h_y0 = block_y0 b, h_text = block_text b\<rparr>] else []) blocks))"
    by (simp add: fun_eq_iff concat_map_if_filter heading_of_def[abs_def])
  show ?thesis unfolding candidates_def * by (rule refl)
qed

section \<open>Sections and their blocks\<close>

lemma sorted_headings_key: "sorted_headings hs = sort_key h_pos hs"
  by (simp add: sorted_headings_def h_pos_def[abs_def])

lemma sorted_headings_sorted: "sorted (map h_pos (sorted_headings hs))"
  by (simp add: sorted_headings_key)

lemma headings_of_sorted:
  assumes "headings_of doc k = Inr hs"
  shows "sorted (map h_pos hs)"
proof -
  from step2_total[of "doc_font_sizes doc" k] obtain S where "step2 (doc_font_sizes doc) k = Inr S"
    by blast
  from headings_of_eq[OF this] assms show ?thesis by (auto simp: sorted_headings_sorted)
qed

lemma sorted_pos_mono:
  assumes "sorted (map h_pos hs)" "i \<le> j" "j < length hs"
  shows "h_pos (hs ! i) \<le> h_pos (hs ! j)"
  using sorted_nth_mono[OF assms(1), of i j] assms(2,3) by simp

lemma in_section_at_iff:
  "in_section_at hs i pg y0 \<longleftrightarrow>
     h_pos (hs ! i) \<le> (pg, y0) \<and> (Suc i < length hs \<longrightarrow> (pg, y0) < h_pos (hs ! Suc i))"
  by (auto simp: in_section_at_def section_bounds_def in_section_def h_pos_def)







text \<open>
  C9, as amended. For a decoded document the output has one section for each sorted
  heading, and for consecutive sections the position of the owning heading does not
  decrease: the next heading is on a later page, or on the same page with a top edge that
  is greater or equal.
\<close>

theorem section_order_nondecreasing:
  fixes fitz_open :: "'p \<Rightarrow> error + ('s::{linorder,minus}, 'y::linorder) document"
  assumes "fitz_open pdf_path = Inr doc"
  shows "\<exists>hs content.
           headings_of doc k = Inr hs \<and>
           extract_everything fitz_open pdf_path k = Inr content \<and>
           length content = length hs \<and>
           (\<forall>i. Suc i < length hs \<longrightarrow>
              content_section (content ! i) = h_text (hs ! i) \<and>
              content_section (content ! Suc i) = h_text (hs ! Suc i) \<and>
              (h_page (hs ! i) < h_page (hs ! Suc i) \<or>
               (h_page (hs ! i) = h_page (hs ! Suc i) \<and> h_y0 (hs ! i) \<le> h_y0 (hs ! Suc i))))"
proof -
  from headings_of_total[of doc k] obtain hs where hs: "headings_of doc k = Inr hs" by blast
  define content where "content = step5 hs (sorted_flat_blocks (positioned (doc_pages_blocks doc)))"
  have e: "extract_everything fitz_open pdf_path k = Inr content"
    using extract_everything_eq[where fitz_open = fitz_open, OF assms hs flat_blocks_of_eq]
    by (simp add: content_def)
  have m: "map content_section content = map h_text hs"
    by (simp add: content_def content_section_step5)
  then have l: "length content = length hs" by (rule map_eq_imp_length_eq)
  have t: "content_section (content ! i) = h_text (hs ! i)" if "i < length hs" for i
    using that l m by (metis nth_map)
  note s = headings_of_sorted[OF hs]
  have o: "h_page (hs ! i) < h_page (hs ! Suc i) \<or>
               (h_page (hs ! i) = h_page (hs ! Suc i) \<and> h_y0 (hs ! i) \<le> h_y0 (hs ! Suc i))"
    if "Suc i < length hs" for i
    using sorted_pos_mono[OF s _ that, of i] by (auto simp: h_pos_def)
  from hs e l t o show ?thesis by (metis Suc_lessD)
qed

theorem section_order_nondecreasing_witness:
  "headings_of
     [[ex_block [[ex_span ''1. Introduction'' 16 50]], ex_block [[ex_span ''Intro body.'' 10 80]]],
      [ex_block [[ex_span ''2. Pricing'' 16 40]], ex_block [[ex_span ''Pricing body.'' 10 70]]]] None
     = Inr [\<lparr>h_page = 1, h_y0 = 50, h_text = ''1. Introduction''\<rparr>,
            \<lparr>h_page = 2, h_y0 = 40, h_text = ''2. Pricing''\<rparr>] \<and>
   extract_everything
     (\<lambda>p. Inr [[ex_block [[ex_span ''1. Introduction'' 16 50]], ex_block [[ex_span ''Intro body.'' 10 80]]],
      [ex_block [[ex_span ''2. Pricing'' 16 40]], ex_block [[ex_span ''Pricing body.'' 10 70]]]])
     ''tender.pdf'' None
     = Inr [\<lparr>content_section = ''1. Introduction'',
              content_text = ''1. Introduction'' @ [CHR 0x0A] @ ''Intro body.''\<rparr>,
            \<lparr>content_section = ''2. Pricing'',
              content_text = ''2. Pricing'' @ [CHR 0x0A] @ ''Pricing body.''\<rparr>] \<and>
   Suc 0 < length [\<lparr>h_page = 1, h_y0 = 50::int, h_text = ''1. Introduction''\<rparr>,
                   \<lparr>h_page = 2, h_y0 = 40, h_text = ''2. Pricing''\<rparr>] \<and>
   (h_page \<lparr>h_page = 1, h_y0 = 50::int, h_text = ''1. Introduction''\<rparr>
      < h_page \<lparr>h_page = 2, h_y0 = 40::int, h_text = ''2. Pricing''\<rparr> \<or>
    (h_page \<lparr>h_page = 1, h_y0 = 50::int, h_text = ''1. Introduction''\<rparr>
      = h_page \<lparr>h_page = 2, h_y0 = 40::int, h_text = ''2. Pricing''\<rparr> \<and>
     h_y0 \<lparr>h_page = 1, h_y0 = 50::int, h_text = ''1. Introduction''\<rparr>
      \<le> h_y0 \<lparr>h_page = 2, h_y0 = 40::int, h_text = ''2. Pricing''\<rparr>))"
proof -
  define D :: "(int, int) document" where "D =
     [[ex_block [[ex_span ''1. Introduction'' 16 50]], ex_block [[ex_span ''Intro body.'' 10 80]]],
      [ex_block [[ex_span ''2. Pricing'' 16 40]], ex_block [[ex_span ''Pricing body.'' 10 70]]]]"
  define f :: "string \<Rightarrow> error + (int, int) document" where "f = (\<lambda>p. Inr D)"
  have d: "f ''tender.pdf'' = Inr D" by (simp add: f_def)
  have h: "headings_of D None = Inr [\<lparr>h_page = 1, h_y0 = 50, h_text = ''1. Introduction''\<rparr>,
            \<lparr>h_page = 2, h_y0 = 40, h_text = ''2. Pricing''\<rparr>]"
    unfolding D_def by code_simp
  have e: "extract_everything f ''tender.pdf'' None
     = Inr [\<lparr>content_section = ''1. Introduction'',
              content_text = ''1. Introduction'' @ [CHR 0x0A] @ ''Intro body.''\<rparr>,
            \<lparr>content_section = ''2. Pricing'',
              content_text = ''2. Pricing'' @ [CHR 0x0A] @ ''Pricing body.''\<rparr>]"
    unfolding f_def D_def by code_simp
  from section_order_nondecreasing[where fitz_open = f, OF d, of None] obtain hs content where
    hs: "headings_of D None = Inr hs" and
    c: "extract_everything f ''tender.pdf'' None = Inr content" and
    l: "length content = length hs" and
    o: "\<forall>i. Suc i < length hs \<longrightarrow>
              content_section (content ! i) = h_text (hs ! i) \<and>
              content_section (content ! Suc i) = h_text (hs ! Suc i) \<and>
              (h_page (hs ! i) < h_page (hs ! Suc i) \<or>
               (h_page (hs ! i) = h_page (hs ! Suc i) \<and> h_y0 (hs ! i) \<le> h_y0 (hs ! Suc i)))"
    by blast
  from hs h have eq: "hs = [\<lparr>h_page = 1, h_y0 = 50, h_text = ''1. Introduction''\<rparr>,
            \<lparr>h_page = 2, h_y0 = 40, h_text = ''2. Pricing''\<rparr>]" by simp
  then have "Suc 0 < length hs" by simp
  from o[rule_format, OF this] have "h_page (hs ! 0) < h_page (hs ! Suc 0) \<or>
       (h_page (hs ! 0) = h_page (hs ! Suc 0) \<and> h_y0 (hs ! 0) \<le> h_y0 (hs ! Suc 0))" by blast
  then have "h_page \<lparr>h_page = 1, h_y0 = 50::int, h_text = ''1. Introduction''\<rparr>
      < h_page \<lparr>h_page = 2, h_y0 = 40::int, h_text = ''2. Pricing''\<rparr> \<or>
    (h_page \<lparr>h_page = 1, h_y0 = 50::int, h_text = ''1. Introduction''\<rparr>
      = h_page \<lparr>h_page = 2, h_y0 = 40::int, h_text = ''2. Pricing''\<rparr> \<and>
     h_y0 \<lparr>h_page = 1, h_y0 = 50::int, h_text = ''1. Introduction''\<rparr>
      \<le> h_y0 \<lparr>h_page = 2, h_y0 = 40::int, h_text = ''2. Pricing''\<rparr>)"
    unfolding eq by (simp only: nth_Cons_0 nth_Cons_Suc)
  with h e show ?thesis unfolding f_def D_def by simp
qed

text \<open>
  C9 as stated fails: two heading blocks with the same page and top edge give two
  consecutive sections whose headings have equal positions.
\<close>

theorem section_order_tie_counterexample:
  "headings_of [[ex_block [[ex_span ''SCOPE'' 12 50]], ex_block [[ex_span ''PRICE'' 12 50]]]] None
     = Inr [\<lparr>h_page = 1, h_y0 = 50, h_text = ''SCOPE''\<rparr>, \<lparr>h_page = 1, h_y0 = 50, h_text = ''PRICE''\<rparr>] \<and>
   extract_everything
     (\<lambda>p. Inr [[ex_block [[ex_span ''SCOPE'' 12 50]], ex_block [[ex_span ''PRICE'' 12 50]]]])
     ''tender.pdf'' None
     = Inr [\<lparr>content_section = ''SCOPE'', content_text = ''''\<rparr>,
            \<lparr>content_section = ''PRICE'', content_text = ''SCOPE'' @ [CHR 0x0A] @ ''PRICE''\<rparr>] \<and>
   \<not> (h_pos \<lparr>h_page = 1, h_y0 = 50::int, h_text = ''SCOPE''\<rparr>
        < h_pos \<lparr>h_page = 1, h_y0 = 50::int, h_text = ''PRICE''\<rparr>)"
  by code_simp

section \<open>The body of a section and the block of its heading\<close>

lemma py_strip_nonempty: "py_strip s \<noteq> [] \<longleftrightarrow> (\<exists>c\<in>set s. \<not> py_isspace c)"
proof
  assume "py_strip s \<noteq> []"
  then have "\<exists>c\<in>set (dropWhile py_isspace s). \<not> py_isspace c"
    by (auto simp: py_strip_def dropWhile_eq_Nil_conv)
  then show "\<exists>c\<in>set s. \<not> py_isspace c" by (blast dest: set_dropWhileD)
next
  assume "\<exists>c\<in>set s. \<not> py_isspace c"
  then obtain c where c: "c \<in> set s" "\<not> py_isspace c" by blast
  have "s = takeWhile py_isspace s @ dropWhile py_isspace s" by simp
  with c(1) have "c \<in> set (takeWhile py_isspace s) \<or> c \<in> set (dropWhile py_isspace s)"
    by (metis Un_iff set_append)
  with c(2) have "c \<in> set (dropWhile py_isspace s)" by (auto dest: set_takeWhileD)
  with c(2) show "py_strip s \<noteq> []" by (auto simp: py_strip_def dropWhile_eq_Nil_conv)
qed

lemma rstrip_prefix: "\<exists>t. xs = rev (dropWhile P (rev xs)) @ t"
proof -
  have "rev (dropWhile P (rev xs)) @ rev (takeWhile P (rev xs))
          = rev (takeWhile P (rev xs) @ dropWhile P (rev xs))"
    by (simp only: rev_append)
  also have "\<dots> = xs" by (simp only: takeWhile_dropWhile_id rev_rev_ident)
  finally have "xs = rev (dropWhile P (rev xs)) @ rev (takeWhile P (rev xs))" by (rule sym)
  then show ?thesis by blast
qed

lemma py_strip_append_prefix:
  assumes "\<exists>c\<in>set a. \<not> py_isspace c"
  shows "\<exists>r. py_strip (a @ b) = py_strip a @ r"
proof -
  from assms obtain c where c: "c \<in> set a" "\<not> py_isspace c" by blast
  define a' where "a' = dropWhile py_isspace a"
  have d: "dropWhile py_isspace (a @ b) = a' @ b"
    using c by (simp add: a'_def dropWhile_append1)
  have sa: "py_strip a = rev (dropWhile py_isspace (rev a'))" by (simp add: py_strip_def a'_def)
  have sab: "py_strip (a @ b) = rev (dropWhile py_isspace (rev b @ rev a'))"
    by (simp add: py_strip_def d)
  show ?thesis
  proof (cases "\<forall>x\<in>set b. py_isspace x")
    case True
    then have "py_strip (a @ b) = py_strip a @ []" by (simp add: sab sa dropWhile_append)
    then show ?thesis by blast
  next
    case False
    then have "py_strip (a @ b) = a' @ rev (dropWhile py_isspace (rev b))"
      by (auto simp: sab dropWhile_append)
    moreover from rstrip_prefix[of a' py_isspace] obtain t where "a' = py_strip a @ t"
      unfolding sa by blast
    ultimately have "py_strip (a @ b) = py_strip a @ (t @ rev (dropWhile py_isspace (rev b)))"
      by simp
    then show ?thesis by blast
  qed
qed

lemma py_join_Cons: "py_join sep (x # xs) = x @ (if xs = [] then [] else sep @ py_join sep xs)"
  by (cases xs) simp_all

lemma set_concat_py_join: "set (concat xs) \<subseteq> set (py_join sep xs)"
  by (induction sep xs rule: py_join.induct) auto

lemma block_body_chars:
  "set (concat (map span_text (block_spans b))) \<subseteq> set (block_body b)"
proof -
  have "concat (map span_text (concat ls)) = concat (map (\<lambda>line. concat (map span_text line)) ls)" for ls :: "('s, 'y) span list list"
    by (induction ls) simp_all
  then show ?thesis
    unfolding block_body_def block_spans_def using set_concat_py_join by metis
qed

lemma heading_block_body_nonspace:
  assumes "heading_block S b"
  shows "\<exists>c\<in>set (block_body b). \<not> py_isspace c"
proof -
  from assms have "block_text b \<noteq> []" by (simp add: heading_block_def)
  then have "\<exists>c\<in>set (concat (map span_text (block_spans b))). \<not> py_isspace c"
    unfolding block_text_def py_strip_nonempty .
  with block_body_chars[of b] show ?thesis by blast
qed

lemma single_line_text:
  assumes "length (block_lines b) = 1"
  shows "block_text b = py_strip (block_body b)"
proof -
  from assms obtain l where "block_lines b = [l]" by (cases "block_lines b") auto
  then show ?thesis by (simp add: block_text_def block_body_def block_spans_def)
qed

lemma section_at_eq:
  "section_at hs flat i =
     \<lparr>content_section = h_text (hs ! i),
      content_text = py_strip (py_join [CHR 0x0A]
        (map (\<lambda>(pg, b, y0). block_body b)
           (filter (\<lambda>(pg, b, y0). in_section_at hs i pg y0) flat)))\<rparr>"
  by (simp add: section_at_def in_section_at_def section_texts_eq Let_def split: prod.splits)

lemma in_section_at_lex:
  "(\<lambda>(pg, b, y0). in_section_at hs i pg y0) =
   (\<lambda>(pg, b, y0). h_pos (hs ! i) \<le> (pg, y0) \<and> (Suc i < length hs \<longrightarrow> (pg, y0) < h_pos (hs ! Suc i)))"
  by (simp add: fun_eq_iff in_section_at_iff)

lemma positioned_set:
  "(pg, b, y) \<in> set (positioned pbs) \<longleftrightarrow>
     (\<exists>blocks. (pg, blocks) \<in> set pbs \<and> b \<in> set blocks \<and> block_spans b \<noteq> [] \<and> y = block_y0 b)"
  by (auto simp: positioned_def)

lemma candidates_set:
  "h \<in> set (candidates S pbs) \<longleftrightarrow>
     (\<exists>pg blocks b. (pg, blocks) \<in> set pbs \<and> b \<in> set blocks \<and> heading_block S b \<and> h = heading_of pg b)"
  by (auto simp: candidates_def)

lemma heading_has_block:
  assumes "h \<in> set (sorted_headings (candidates S pbs))"
  shows "\<exists>pg b. (pg, b, block_y0 b) \<in> set (sorted_flat_blocks (positioned pbs)) \<and>
                 heading_block S b \<and> h = heading_of pg b"
proof -
  from assms have "h \<in> set (candidates S pbs)" by (simp add: sorted_headings_def)
  then obtain pg blocks b where
    *: "(pg, blocks) \<in> set pbs" "b \<in> set blocks" "heading_block S b" "h = heading_of pg b"
    unfolding candidates_set by blast
  then have "block_spans b \<noteq> []" by (simp add: heading_block_def)
  with * have "(pg, b, block_y0 b) \<in> set (positioned pbs)" unfolding positioned_set by blast
  with * show ?thesis by (auto simp: sorted_flat_blocks_def)
qed

lemma own_block_member:
  assumes "hs ! i = heading_of pg b"
  shows "in_section_at hs i pg (block_y0 b) \<longleftrightarrow>
           (Suc i < length hs \<longrightarrow> h_pos (hs ! i) < h_pos (hs ! Suc i))"
proof -
  have "h_pos (hs ! i) = (pg, block_y0 b)" by (simp add: assms h_pos_def heading_of_def)
  then show ?thesis by (simp add: in_section_at_iff)
qed

lemma sorted_three_parts:
  fixes f :: "'a \<Rightarrow> 'k::linorder"
  assumes "sorted (map f xs)"
  shows "xs = filter (\<lambda>x. f x < k) xs @ filter (\<lambda>x. f x = k) xs @ filter (\<lambda>x. k < f x) xs"
  using assms
proof (induction xs)
  case Nil
  show ?case by simp
next
  case (Cons x xs)
  then have le: "\<forall>y\<in>set xs. f x \<le> f y" and s: "sorted (map f xs)" by simp_all
  note IH = Cons.IH[OF s]
  consider "f x < k" | "f x = k" | "k < f x" by (metis less_linear)
  then show ?case
  proof cases
    case 1
    then have "f x \<noteq> k" "\<not> k < f x" by auto
    with 1 IH show ?thesis by simp
  next
    case 2
    with le have "filter (\<lambda>x. f x < k) xs = []" by (auto simp: filter_empty_conv)
    moreover from 2 have "\<not> f x < k" "\<not> k < f x" by auto
    ultimately show ?thesis using 2 IH by simp
  next
    case 3
    with le have "filter (\<lambda>x. f x < k) xs = []" "filter (\<lambda>x. f x = k) xs = []"
      by (auto simp: filter_empty_conv)
    moreover from 3 have "\<not> f x < k" "f x \<noteq> k" by auto
    ultimately show ?thesis using 3 IH by simp
  qed
qed

lemma sorted_flat_blocks_key:
  "sorted_flat_blocks xs = sort_key (\<lambda>x. (fst x, snd (snd x))) xs"
  by (simp add: sorted_flat_blocks_def)

lemma sorted_flat_blocks_sorted:
  "sorted (map (\<lambda>x. (fst x, snd (snd x))) (sorted_flat_blocks xs))"
  unfolding sorted_flat_blocks_key by (rule sorted_sort_key)

lemma sorted_flat_blocks_stable:
  "filter (\<lambda>x. (fst x, snd (snd x)) = p) (sorted_flat_blocks xs)
     = filter (\<lambda>x. (fst x, snd (snd x)) = p) xs"
  unfolding sorted_flat_blocks_key by (rule sort_key_stable)

text \<open>The members of a section, when the block of its heading is the first block collected at
  the heading's position.\<close>

lemma first_member_is_own_block:
  fixes flat0 :: "(nat \<times> ('s, 'y::linorder) block \<times> 'y) list"
  assumes f0: "flat0 = pre @ (pg, b, block_y0 b) # post"
    and pre: "\<forall>x\<in>set pre. (fst x, snd (snd x)) \<noteq> (pg, block_y0 b)"
    and h: "hs ! i = heading_of pg b"
    and nx: "Suc i < length hs \<longrightarrow> h_pos (hs ! i) < h_pos (hs ! Suc i)"
  shows "\<exists>rest. filter (\<lambda>(pg, b, y0). in_section_at hs i pg y0) (sorted_flat_blocks flat0)
                  = (pg, b, block_y0 b) # rest"
proof -
  let ?key = "\<lambda>x :: nat \<times> ('s, 'y) block \<times> 'y. (fst x, snd (snd x))"
  let ?mem = "\<lambda>(pg, b, y0). in_section_at hs i pg (y0 :: 'y)"
  define k where "k = (pg, block_y0 b)"
  define flat where "flat = sorted_flat_blocks flat0"
  have pos: "h_pos (hs ! i) = k" by (simp add: h h_pos_def heading_of_def k_def)
  have parts: "flat = filter (\<lambda>x. ?key x < k) flat @ filter (\<lambda>x. ?key x = k) flat
                      @ filter (\<lambda>x. k < ?key x) flat"
    unfolding flat_def by (rule sorted_three_parts[OF sorted_flat_blocks_sorted])
  have A: "filter ?mem (filter (\<lambda>x. ?key x < k) flat) = []"
    by (auto simp: filter_empty_conv in_section_at_iff pos)
  have "filter (\<lambda>x. ?key x = k) flat = filter (\<lambda>x. ?key x = k) flat0"
    unfolding flat_def by (rule sorted_flat_blocks_stable)
  also have "\<dots> = (pg, b, block_y0 b) # filter (\<lambda>x. ?key x = k) post"
    using pre by (simp add: f0 k_def filter_empty_conv)
  finally have B: "filter (\<lambda>x. ?key x = k) flat = (pg, b, block_y0 b) # filter (\<lambda>x. ?key x = k) post" .
  have m: "in_section_at hs i pg (block_y0 b)" using own_block_member[OF h] nx by simp
  have "filter ?mem flat = filter ?mem (filter (\<lambda>x. ?key x < k) flat)
          @ filter ?mem (filter (\<lambda>x. ?key x = k) flat) @ filter ?mem (filter (\<lambda>x. k < ?key x) flat)"
    by (subst parts) (simp only: filter_append)
  also have "\<dots> = (pg, b, block_y0 b) # filter ?mem (filter (\<lambda>x. ?key x = k) post)
          @ filter ?mem (filter (\<lambda>x. k < ?key x) flat)"
    unfolding A B using m by simp
  finally show ?thesis unfolding flat_def by blast
qed

lemma body_starts_with_own_block:
  fixes flat0 :: "(nat \<times> ('s::linorder, 'y::linorder) block \<times> 'y) list"
  assumes f0: "flat0 = pre @ (pg, b, block_y0 b) # post"
    and pre: "\<forall>x\<in>set pre. (fst x, snd (snd x)) \<noteq> (pg, block_y0 b)"
    and hb: "heading_block S b" and h: "hs ! i = heading_of pg b"
    and nx: "Suc i < length hs \<longrightarrow> h_pos (hs ! i) < h_pos (hs ! Suc i)"
  shows "\<exists>rest. content_text (section_at hs (sorted_flat_blocks flat0) i)
                  = py_strip (block_body b) @ rest"
proof -
  from first_member_is_own_block[OF f0 pre h nx] obtain rest where
    "filter (\<lambda>(pg, b, y0). in_section_at hs i pg y0) (sorted_flat_blocks flat0)
       = (pg, b, block_y0 b) # rest" by blast
  then obtain tl where
    "content_text (section_at hs (sorted_flat_blocks flat0) i) = py_strip (block_body b @ tl)"
    by (simp add: section_at_eq py_join_Cons)
  with py_strip_append_prefix[OF heading_block_body_nonspace[OF hb], of tl] show ?thesis by simp
qed

text \<open>
  C3, as amended. For a decoded document and the heading at index \<open>i\<close>: the output has
  the section \<open>section_at hs flat i\<close> at index \<open>i\<close>; its body is the trimmed join of the
  bodies of exactly the blocks whose position \<open>(page, y0)\<close> is at or after the heading's
  position and, unless the heading is the last one, strictly before the next heading's
  position, in the lexicographic order of pairs. The heading comes from a heading block
  of the document, and that block passes the membership test of its own section exactly
  when the heading is the last one or the next heading lies strictly after it. When it
  does, and no block collected before it (in the list \<open>flat_blocks\<close> of step 4, before it
  is sorted) has the same position, the section's body starts with the trimmed body of
  the block (its lines joined by line feeds), which is the title when the block has a
  single line.
\<close>

theorem section_membership:
  fixes fitz_open :: "'p \<Rightarrow> error + ('s::{linorder,minus}, 'y::linorder) document"
  assumes "fitz_open pdf_path = Inr doc" "heading_sizes_of doc k = Inr S"
    and "headings_of doc k = Inr hs" "flat_blocks_of doc = Inr flat" "i < length hs"
  shows "(\<exists>content. extract_everything fitz_open pdf_path k = Inr content \<and>
            length content = length hs \<and> content ! i = section_at hs flat i)
       \<and> section_at hs flat i =
           \<lparr>content_section = h_text (hs ! i),
            content_text = py_strip (py_join [CHR 0x0A]
              (map (\<lambda>(pg, b, y0). block_body b)
                 (filter (\<lambda>(pg, b, y0). h_pos (hs ! i) \<le> (pg, y0) \<and>
                            (Suc i < length hs \<longrightarrow> (pg, y0) < h_pos (hs ! Suc i))) flat)))\<rparr>
       \<and> (\<exists>pg b. (pg, b, block_y0 b) \<in> set flat \<and> heading_block S b \<and> hs ! i = heading_of pg b)
       \<and> (\<forall>pg b. (pg, b, block_y0 b) \<in> set flat \<and> hs ! i = heading_of pg b \<longrightarrow>
            (in_section_at hs i pg (block_y0 b) \<longleftrightarrow>
               (Suc i < length hs \<longrightarrow> h_pos (hs ! i) < h_pos (hs ! Suc i))))
       \<and> (\<forall>fs pbs flat0 pg b pre post.
             step1 doc = Inr (fs, pbs) \<and> step4 pbs [] = Inr flat0 \<and>
             flat0 = pre @ (pg, b, block_y0 b) # post \<and>
             (\<forall>x\<in>set pre. (fst x, snd (snd x)) \<noteq> (pg, block_y0 b)) \<and>
             heading_block S b \<and> hs ! i = heading_of pg b \<and>
             (Suc i < length hs \<longrightarrow> h_pos (hs ! i) < h_pos (hs ! Suc i)) \<longrightarrow>
             (\<exists>rest. content_text (section_at hs flat i) = py_strip (block_body b) @ rest) \<and>
             (length (block_lines b) = 1 \<longrightarrow> h_text (hs ! i) = py_strip (block_body b)))"
proof (intro conjI allI impI)
  have e: "extract_everything fitz_open pdf_path k = Inr (step5 hs flat)"
    using extract_everything_eq[where fitz_open = fitz_open, OF assms(1,3,4)] .
  have "length (step5 hs flat) = length hs" by (simp add: step5_def)
  moreover have "step5 hs flat ! i = section_at hs flat i"
    using assms(5) by (simp add: step5_def)
  ultimately show "\<exists>content. extract_everything fitz_open pdf_path k = Inr content \<and>
            length content = length hs \<and> content ! i = section_at hs flat i"
    using e by blast
next
  show "section_at hs flat i =
           \<lparr>content_section = h_text (hs ! i),
            content_text = py_strip (py_join [CHR 0x0A]
              (map (\<lambda>(pg, b, y0). block_body b)
                 (filter (\<lambda>(pg, b, y0). h_pos (hs ! i) \<le> (pg, y0) \<and>
                            (Suc i < length hs \<longrightarrow> (pg, y0) < h_pos (hs ! Suc i))) flat)))\<rparr>"
    unfolding in_section_at_lex[symmetric] by (rule section_at_eq)
next
  have hs: "hs = sorted_headings (candidates S (doc_pages_blocks doc))"
    using assms(2,3) by (simp add: heading_sizes_of_eq headings_of_eq)
  have fl: "flat = sorted_flat_blocks (positioned (doc_pages_blocks doc))"
    using assms(4) by (simp add: flat_blocks_of_eq)
  from assms(5) have "hs ! i \<in> set hs" by simp
  then show "\<exists>pg b. (pg, b, block_y0 b) \<in> set flat \<and> heading_block S b \<and> hs ! i = heading_of pg b"
    unfolding hs fl by (rule heading_has_block)
next
  fix pg b
  assume "(pg, b, block_y0 b) \<in> set flat \<and> hs ! i = heading_of pg b"
  then show "in_section_at hs i pg (block_y0 b) \<longleftrightarrow>
               (Suc i < length hs \<longrightarrow> h_pos (hs ! i) < h_pos (hs ! Suc i))"
    using own_block_member by blast
next
  fix fs pbs flat0 pg b pre post
  assume a: "step1 doc = Inr (fs, pbs) \<and> step4 pbs [] = Inr flat0 \<and>
             flat0 = pre @ (pg, b, block_y0 b) # post \<and>
             (\<forall>x\<in>set pre. (fst x, snd (snd x)) \<noteq> (pg, block_y0 b)) \<and>
             heading_block S b \<and> hs ! i = heading_of pg b \<and>
             (Suc i < length hs \<longrightarrow> h_pos (hs ! i) < h_pos (hs ! Suc i))"
  then have "flat_blocks_of doc = Inr (sorted_flat_blocks flat0)"
    by (simp add: flat_blocks_of_def)
  with assms(4) have fl: "flat = sorted_flat_blocks flat0" by simp
  from a show "\<exists>rest. content_text (section_at hs flat i) = py_strip (block_body b) @ rest"
    unfolding fl using body_starts_with_own_block[of flat0 pre pg b post S hs i] by blast
next
  fix fs pbs flat0 pg b pre post
  assume a: "step1 doc = Inr (fs, pbs) \<and> step4 pbs [] = Inr flat0 \<and>
             flat0 = pre @ (pg, b, block_y0 b) # post \<and>
             (\<forall>x\<in>set pre. (fst x, snd (snd x)) \<noteq> (pg, block_y0 b)) \<and>
             heading_block S b \<and> hs ! i = heading_of pg b \<and>
             (Suc i < length hs \<longrightarrow> h_pos (hs ! i) < h_pos (hs ! Suc i))"
  assume "length (block_lines b) = 1"
  from single_line_text[OF this] a show "h_text (hs ! i) = py_strip (block_body b)"
    by (simp add: heading_of_def)
qed

theorem section_membership_witness:
  "step1
     [[ex_block [[ex_span ''Intro body.'' 10 80]], ex_block [[ex_span ''1. Introduction'' 16 50]]],
      [ex_block [[ex_span ''2. Pricing'' 16 40]], ex_block [[ex_span ''Pricing body.'' 10 70]]]]
     = Inr ([10, 16, 16, 10],
            [(1, [ex_block [[ex_span ''Intro body.'' 10 80]], ex_block [[ex_span ''1. Introduction'' 16 50]]]),
             (2, [ex_block [[ex_span ''2. Pricing'' 16 40]], ex_block [[ex_span ''Pricing body.'' 10 70]]])]) \<and>
   step4
     [(1, [ex_block [[ex_span ''Intro body.'' 10 80]], ex_block [[ex_span ''1. Introduction'' 16 50]]]),
      (2, [ex_block [[ex_span ''2. Pricing'' 16 40]], ex_block [[ex_span ''Pricing body.'' 10 70]]])] []
     = Inr ([(1, ex_block [[ex_span ''Intro body.'' 10 80]], 80)] @
            (1, ex_block [[ex_span ''1. Introduction'' 16 50]],
                block_y0 (ex_block [[ex_span ''1. Introduction'' 16 50]])) #
            [(2, ex_block [[ex_span ''2. Pricing'' 16 40]], 40),
             (2, ex_block [[ex_span ''Pricing body.'' 10 70]], 70)]) \<and>
   heading_sizes_of
     [[ex_block [[ex_span ''Intro body.'' 10 80]], ex_block [[ex_span ''1. Introduction'' 16 50]]],
      [ex_block [[ex_span ''2. Pricing'' 16 40]], ex_block [[ex_span ''Pricing body.'' 10 70]]]] None
     = Inr {16} \<and>
   headings_of
     [[ex_block [[ex_span ''Intro body.'' 10 80]], ex_block [[ex_span ''1. Introduction'' 16 50]]],
      [ex_block [[ex_span ''2. Pricing'' 16 40]], ex_block [[ex_span ''Pricing body.'' 10 70]]]] None
     = Inr [heading_of 1 (ex_block [[ex_span ''1. Introduction'' 16 50]]),
            heading_of 2 (ex_block [[ex_span ''2. Pricing'' 16 40]])] \<and>
   flat_blocks_of
     [[ex_block [[ex_span ''Intro body.'' 10 80]], ex_block [[ex_span ''1. Introduction'' 16 50]]],
      [ex_block [[ex_span ''2. Pricing'' 16 40]], ex_block [[ex_span ''Pricing body.'' 10 70]]]]
     = Inr [(1, ex_block [[ex_span ''1. Introduction'' 16 50]],
                block_y0 (ex_block [[ex_span ''1. Introduction'' 16 50]])),
            (1, ex_block [[ex_span ''Intro body.'' 10 80]], 80),
            (2, ex_block [[ex_span ''2. Pricing'' 16 40]], 40),
            (2, ex_block [[ex_span ''Pricing body.'' 10 70]], 70)] \<and>
   heading_block {16} (ex_block [[ex_span ''1. Introduction'' 16 50]]) \<and>
   length (block_lines (ex_block [[ex_span ''1. Introduction'' 16 50]])) = 1 \<and>
   in_section_at [heading_of 1 (ex_block [[ex_span ''1. Introduction'' 16 50]]),
                  heading_of 2 (ex_block [[ex_span ''2. Pricing'' 16 40]])] 0
      1 (block_y0 (ex_block [[ex_span ''1. Introduction'' 16 50]])) \<and>
   (\<exists>rest. content_text
      (section_at [heading_of 1 (ex_block [[ex_span ''1. Introduction'' 16 50]]),
                   heading_of 2 (ex_block [[ex_span ''2. Pricing'' 16 40]])]
         [(1, ex_block [[ex_span ''1. Introduction'' 16 50]],
              block_y0 (ex_block [[ex_span ''1. Introduction'' 16 50]])),
          (1, ex_block [[ex_span ''Intro body.'' 10 80]], 80),
          (2, ex_block [[ex_span ''2. Pricing'' 16 40]], 40),
          (2, ex_block [[ex_span ''Pricing body.'' 10 70]], 70)] 0)
      = py_strip (block_body (ex_block [[ex_span ''1. Introduction'' 16 50]])) @ rest) \<and>
   h_text (heading_of 1 (ex_block [[ex_span ''1. Introduction'' 16 50]]))
     = py_strip (block_body (ex_block [[ex_span ''1. Introduction'' 16 50]])) \<and>
   extract_everything
     (\<lambda>p. Inr [[ex_block [[ex_span ''Intro body.'' 10 80]], ex_block [[ex_span ''1. Introduction'' 16 50]]],
      [ex_block [[ex_span ''2. Pricing'' 16 40]], ex_block [[ex_span ''Pricing body.'' 10 70]]]])
     ''tender.pdf'' None
     = Inr [\<lparr>content_section = ''1. Introduction'',
              content_text = ''1. Introduction'' @ [CHR 0x0A] @ ''Intro body.''\<rparr>,
            \<lparr>content_section = ''2. Pricing'',
              content_text = ''2. Pricing'' @ [CHR 0x0A] @ ''Pricing body.''\<rparr>]"
proof -
  define B1 :: "(int, int) block" where "B1 = ex_block [[ex_span ''1. Introduction'' 16 50]]"
  define B2 :: "(int, int) block" where "B2 = ex_block [[ex_span ''Intro body.'' 10 80]]"
  define B3 :: "(int, int) block" where "B3 = ex_block [[ex_span ''2. Pricing'' 16 40]]"
  define B4 :: "(int, int) block" where "B4 = ex_block [[ex_span ''Pricing body.'' 10 70]]"
  define D where "D = [[B2, B1], [B3, B4]]"
  define f :: "string \<Rightarrow> error + (int, int) document" where "f = (\<lambda>p. Inr D)"
  define hs where "hs = [heading_of 1 B1, heading_of 2 B3]"
  define pbs where "pbs = [(1::nat, [B2, B1]), (2, [B3, B4])]"
  define pre where "pre = [(1::nat, B2, 80::int)]"
  define post where "post = [(2::nat, B3, 40::int), (2, B4, 70)]"
  define flat0 where "flat0 = pre @ (1, B1, block_y0 B1) # post"
  define flat where "flat = [(1::nat, B1, block_y0 B1), (1, B2, 80), (2, B3, 40), (2, B4, 70)]"
  have d: "f ''tender.pdf'' = Inr D" by (simp add: f_def)
  have s1: "step1 D = Inr ([10, 16, 16, 10], pbs)"
    unfolding D_def pbs_def B1_def B2_def B3_def B4_def by code_simp
  have s4: "step4 pbs [] = Inr flat0"
    unfolding pbs_def flat0_def pre_def post_def B1_def B2_def B3_def B4_def by code_simp
  have s: "heading_sizes_of D None = Inr {16}"
    unfolding D_def B1_def B2_def B3_def B4_def by code_simp
  have h: "headings_of D None = Inr hs"
    unfolding D_def hs_def B1_def B2_def B3_def B4_def by code_simp
  have fl: "flat_blocks_of D = Inr flat"
    unfolding D_def flat_def B1_def B2_def B3_def B4_def by code_simp
  have i: "0 < length hs" by (simp add: hs_def)
  have hb: "heading_block {16} B1" unfolding B1_def by code_simp
  have one: "length (block_lines B1) = 1" unfolding B1_def by code_simp
  have nx: "Suc 0 < length hs \<longrightarrow> h_pos (hs ! 0) < h_pos (hs ! Suc 0)"
    unfolding hs_def B1_def B3_def by code_simp
  have own: "hs ! 0 = heading_of 1 B1" by (simp add: hs_def)
  have mem: "(1, B1, block_y0 B1) \<in> set flat" by (simp add: flat_def)
  have sp: "flat0 = pre @ (1, B1, block_y0 B1) # post" by (simp add: flat0_def)
  have pr: "\<forall>x\<in>set pre. (fst x, snd (snd x)) \<noteq> (1, block_y0 B1)"
    unfolding pre_def B1_def B2_def by code_simp
  note th = section_membership[where fitz_open = f, OF d s h fl i]
  from th have c4: "\<forall>pg b. (pg, b, block_y0 b) \<in> set flat \<and> hs ! 0 = heading_of pg b \<longrightarrow>
            (in_section_at hs 0 pg (block_y0 b) \<longleftrightarrow>
               (Suc 0 < length hs \<longrightarrow> h_pos (hs ! 0) < h_pos (hs ! Suc 0)))" by blast
  from c4[rule_format, of 1 B1] mem own nx have r1: "in_section_at hs 0 1 (block_y0 B1)" by blast
  from th have c5: "\<forall>fs pbs flat0 pg b pre post.
             step1 D = Inr (fs, pbs) \<and> step4 pbs [] = Inr flat0 \<and>
             flat0 = pre @ (pg, b, block_y0 b) # post \<and>
             (\<forall>x\<in>set pre. (fst x, snd (snd x)) \<noteq> (pg, block_y0 b)) \<and>
             heading_block {16} b \<and> hs ! 0 = heading_of pg b \<and>
             (Suc 0 < length hs \<longrightarrow> h_pos (hs ! 0) < h_pos (hs ! Suc 0)) \<longrightarrow>
             (\<exists>rest. content_text (section_at hs flat 0) = py_strip (block_body b) @ rest) \<and>
             (length (block_lines b) = 1 \<longrightarrow> h_text (hs ! 0) = py_strip (block_body b))" by blast
  from c5[rule_format, of "[10, 16, 16, 10]" pbs flat0 pre 1 B1 post] s1 s4 sp pr hb own nx one
  have r2: "\<exists>rest. content_text (section_at hs flat 0) = py_strip (block_body B1) @ rest"
    and r3: "h_text (hs ! 0) = py_strip (block_body B1)" by simp_all
  from r3 own have r3': "h_text (heading_of 1 B1) = py_strip (block_body B1)" by simp
  have e: "extract_everything f ''tender.pdf'' None
     = Inr [\<lparr>content_section = ''1. Introduction'',
              content_text = ''1. Introduction'' @ [CHR 0x0A] @ ''Intro body.''\<rparr>,
            \<lparr>content_section = ''2. Pricing'',
              content_text = ''2. Pricing'' @ [CHR 0x0A] @ ''Pricing body.''\<rparr>]"
    unfolding f_def D_def B1_def B2_def B3_def B4_def by code_simp
  from s1 s4 s h fl hb one r1 r2 r3' e show ?thesis
    unfolding f_def D_def hs_def flat_def flat0_def pbs_def pre_def post_def B1_def B2_def B3_def B4_def
    by blast
qed

text \<open>
  C3 as stated fails. Two heading blocks at the same position: the first one is not in its
  own section, whose body is empty. A heading block of two lines: the title joins the
  lines without a separator and is not the start of the body. A plain block at the
  position of a heading block and collected before it: the body starts with the plain
  block's text.
\<close>

theorem heading_block_outside_own_section_counterexample:
  "extract_everything
     (\<lambda>p. Inr [[ex_block [[ex_span ''LOT A'' 12 50]], ex_block [[ex_span ''LOT B'' 12 50]]]])
     ''tender.pdf'' None
     = Inr [\<lparr>content_section = ''LOT A'', content_text = ''''\<rparr>,
            \<lparr>content_section = ''LOT B'', content_text = ''LOT A'' @ [CHR 0x0A] @ ''LOT B''\<rparr>] \<and>
   headings_of [[ex_block [[ex_span ''LOT A'' 12 50]], ex_block [[ex_span ''LOT B'' 12 50]]]] None
     = Inr [heading_of 1 (ex_block [[ex_span ''LOT A'' 12 50]]),
            heading_of 1 (ex_block [[ex_span ''LOT B'' 12 50]])] \<and>
   \<not> in_section_at [heading_of 1 (ex_block [[ex_span ''LOT A'' 12 50]]),
                    heading_of 1 (ex_block [[ex_span ''LOT B'' 12 50]])] 0
        1 (block_y0 (ex_block [[ex_span ''LOT A'' 12 50]])) \<and>
   extract_everything
     (\<lambda>p. Inr [[ex_block [[ex_span ''1.2 Scope'' 12 50], [ex_span ''of Work'' 12 62]]]])
     ''tender.pdf'' None
     = Inr [\<lparr>content_section = ''1.2 Scopeof Work'',
              content_text = ''1.2 Scope'' @ [CHR 0x0A] @ ''of Work''\<rparr>] \<and>
   extract_everything
     (\<lambda>p. Inr [[ex_block [[ex_span ''ANNEX'' 20 10]], ex_block [[ex_span ''see the table'' 10 50]],
                 ex_block [[ex_span ''TERMS'' 10 50]]]])
     ''tender.pdf'' None
     = Inr [\<lparr>content_section = ''ANNEX'', content_text = ''ANNEX''\<rparr>,
            \<lparr>content_section = ''TERMS'', content_text = ''see the table'' @ [CHR 0x0A] @ ''TERMS''\<rparr>]"
  by code_simp

section \<open>The textual rules for headings\<close>

lemma upper_not_lower: "py_isupper_char c \<Longrightarrow> \<not> py_islower_char c"
  by (auto simp: py_isupper_char_def py_islower_char_def Let_def)

lemma istitle_scan_eq:
  "istitle_scan cased (cased_char p) s \<longleftrightarrow>
     (cased \<or> list_ex cased_char s) \<and>
     list_all (\<lambda>(p, c). (py_isupper_char c \<longrightarrow> \<not> cased_char p) \<and>
                        (py_islower_char c \<longrightarrow> cased_char p)) (zip (p # s) s)"
proof (induction s arbitrary: cased p)
  case Nil
  show ?case by simp
next
  case (Cons c s)
  show ?case
  proof (cases "py_isupper_char c")
    case True
    then have cc: "cased_char c" and nl: "\<not> py_islower_char c"
      by (simp_all add: cased_char_def upper_not_lower)
    show ?thesis using True cc nl Cons[of True c] by auto
  next
    case False
    show ?thesis
    proof (cases "py_islower_char c")
      case True
      then have cc: "cased_char c" by (simp add: cased_char_def)
      show ?thesis using True False cc Cons[of True c] by auto
    next
      case nl: False
      with False have cc: "\<not> cased_char c" by (simp add: cased_char_def)
      show ?thesis using nl False cc Cons[of cased c] by auto
    qed
  qed
qed

lemma py_istitle_title_cased: "py_istitle s \<longleftrightarrow> title_cased s"
proof -
  have "\<not> cased_char CHR '' ''" by (simp add: cased_char_def py_isupper_char_def py_islower_char_def)
  with istitle_scan_eq[of False "CHR '' ''" s] show ?thesis
    by (simp add: py_istitle_def title_cased_def)
qed

lemma re_plus_set:
  "set (re_plus p s) = {r. \<exists>m. m \<noteq> [] \<and> (\<forall>c\<in>set m. p c) \<and> s = m @ r}"
proof (induction s)
  case Nil
  show ?case by simp
next
  case (Cons c cs)
  show ?case
  proof (cases "p c")
    case False
    have "\<not> (\<exists>m. m \<noteq> [] \<and> (\<forall>c\<in>set m. p c) \<and> c # cs = m @ r)" for r
    proof
      assume "\<exists>m. m \<noteq> [] \<and> (\<forall>c\<in>set m. p c) \<and> c # cs = m @ r"
      then obtain m where m: "m \<noteq> []" "\<forall>c\<in>set m. p c" "c # cs = m @ r" by blast
      then obtain m' where "m = c # m'" by (cases m) auto
      with m(2) False show False by simp
    qed
    with False show ?thesis by simp
  next
    case True
    show ?thesis
    proof (intro set_eqI iffI)
      fix r assume "r \<in> set (re_plus p (c # cs))"
      with True have "r \<in> set (re_plus p cs) \<or> r = cs" by auto
      then show "r \<in> {r. \<exists>m. m \<noteq> [] \<and> (\<forall>c\<in>set m. p c) \<and> c # cs = m @ r}"
      proof
        assume "r \<in> set (re_plus p cs)"
        with Cons obtain m where "m \<noteq> []" "\<forall>c\<in>set m. p c" "cs = m @ r" by auto
        with True have "c # m \<noteq> [] \<and> (\<forall>x\<in>set (c # m). p x) \<and> c # cs = (c # m) @ r" by simp
        then show ?thesis by blast
      next
        assume "r = cs"
        with True have "[c] \<noteq> [] \<and> (\<forall>x\<in>set [c]. p x) \<and> c # cs = [c] @ r" by simp
        then show ?thesis by blast
      qed
    next
      fix r assume "r \<in> {r. \<exists>m. m \<noteq> [] \<and> (\<forall>c\<in>set m. p c) \<and> c # cs = m @ r}"
      then obtain m where m: "m \<noteq> []" "\<forall>c\<in>set m. p c" "c # cs = m @ r" by blast
      then obtain m' where m': "m = c # m'" by (cases m) auto
      with m have cs: "cs = m' @ r" and pm: "\<forall>c\<in>set m'. p c" by auto
      show "r \<in> set (re_plus p (c # cs))"
      proof (cases "m' = []")
        case True
        with cs \<open>p c\<close> show ?thesis by simp
      next
        case False
        with cs pm have "r \<in> {r. \<exists>m. m \<noteq> [] \<and> (\<forall>c\<in>set m. p c) \<and> cs = m @ r}" by blast
        with Cons \<open>p c\<close> show ?thesis by simp
      qed
    qed
  qed
qed

lemma re_seq_nonempty: "re_seq m1 m2 s \<noteq> [] \<longleftrightarrow> (\<exists>r\<in>set (m1 s). m2 r \<noteq> [])"
  by (simp add: re_seq_def)

lemma num_heading_re_match_iff:
  "num_heading_re_match s \<longleftrightarrow>
     (\<exists>ds ps ws rest. s = ds @ ps @ ws @ rest \<and>
        ds \<noteq> [] \<and> (\<forall>c\<in>set ds. py_isdecimal c) \<and>
        (\<forall>c\<in>set ps. c = CHR ''.'' \<or> py_isdecimal c) \<and>
        ws \<noteq> [] \<and> (\<forall>c\<in>set ws. py_isspace c))"
proof -
  let ?dd = "\<lambda>c. c = CHR ''.'' \<or> py_isdecimal c"
  have "num_heading_re_match s \<longleftrightarrow>
          (\<exists>r1\<in>set (re_plus py_isdecimal s). \<exists>r2\<in>set (re_opt (re_plus ?dd) r1).
             \<exists>r3\<in>set (re_plus py_isspace r2). re_star (\<lambda>c. c \<noteq> CHR 0x0A) r3 \<noteq> [])"
    unfolding num_heading_re_match_def num_heading_re_def by (simp only: re_seq_nonempty)
  also have "\<dots> \<longleftrightarrow>
          (\<exists>r1\<in>set (re_plus py_isdecimal s). \<exists>r2\<in>set (re_plus ?dd r1) \<union> {r1}.
             \<exists>r3. r3 \<in> set (re_plus py_isspace r2))"
    by (simp add: re_star_def re_opt_def Bex_def)
  also have "\<dots> \<longleftrightarrow>
     (\<exists>ds ps ws rest. s = ds @ ps @ ws @ rest \<and>
        ds \<noteq> [] \<and> (\<forall>c\<in>set ds. py_isdecimal c) \<and>
        (\<forall>c\<in>set ps. ?dd c) \<and>
        ws \<noteq> [] \<and> (\<forall>c\<in>set ws. py_isspace c))"
    (is "?L \<longleftrightarrow> ?R")
  proof
    assume ?L
    then obtain r1 r2 r3 where r1: "r1 \<in> set (re_plus py_isdecimal s)"
      and r2: "r2 \<in> set (re_plus ?dd r1) \<or> r2 = r1"
      and r3: "r3 \<in> set (re_plus py_isspace r2)" by auto
    from r1 have "\<exists>m. m \<noteq> [] \<and> (\<forall>c\<in>set m. py_isdecimal c) \<and> s = m @ r1"
      by (simp add: re_plus_set)
    then obtain ds where ds: "ds \<noteq> []" "\<forall>c\<in>set ds. py_isdecimal c" "s = ds @ r1"
      by (elim exE conjE)
    have "\<exists>ps. (\<forall>c\<in>set ps. ?dd c) \<and> r1 = ps @ r2"
    proof (cases "r2 = r1")
      case True
      then show ?thesis by (intro exI[of _ "[]"]) simp
    next
      case False
      with r2 have "\<exists>m. m \<noteq> [] \<and> (\<forall>c\<in>set m. ?dd c) \<and> r1 = m @ r2"
        by (simp add: re_plus_set)
      then obtain m where "\<forall>c\<in>set m. ?dd c" "r1 = m @ r2" by (elim exE conjE)
      then show ?thesis by (intro exI[of _ m]) simp
    qed
    then obtain ps where ps: "\<forall>c\<in>set ps. ?dd c" "r1 = ps @ r2" by (elim exE conjE)
    from r3 have "\<exists>m. m \<noteq> [] \<and> (\<forall>c\<in>set m. py_isspace c) \<and> r2 = m @ r3"
      by (simp add: re_plus_set)
    then obtain ws where ws: "ws \<noteq> []" "\<forall>c\<in>set ws. py_isspace c" "r2 = ws @ r3"
      by (elim exE conjE)
    from ds ps ws have "s = ds @ ps @ ws @ r3" by simp
    with ds(1,2) ps(1) ws(1,2) show ?R
      by (intro exI[of _ ds] exI[of _ ps] exI[of _ ws] exI[of _ r3] conjI)
  next
    assume ?R
    then obtain ds ps ws rest where *: "s = ds @ ps @ ws @ rest"
        "ds \<noteq> []" "\<forall>c\<in>set ds. py_isdecimal c" "\<forall>c\<in>set ps. ?dd c"
        "ws \<noteq> []" "\<forall>c\<in>set ws. py_isspace c" by (elim exE conjE)
    have r1: "ps @ ws @ rest \<in> set (re_plus py_isdecimal s)"
      unfolding re_plus_set using *(1,2,3) by (intro CollectI exI[of _ ds]) simp
    have r2: "ws @ rest \<in> set (re_plus ?dd (ps @ ws @ rest)) \<union> {ps @ ws @ rest}"
    proof (cases "ps = []")
      case True
      then show ?thesis by simp
    next
      case False
      with *(4) have "ws @ rest \<in> set (re_plus ?dd (ps @ ws @ rest))"
        unfolding re_plus_set by (intro CollectI exI[of _ ps]) simp
      then show ?thesis by simp
    qed
    have r3: "rest \<in> set (re_plus py_isspace (ws @ rest))"
      unfolding re_plus_set using *(5,6) by (intro CollectI exI[of _ ws]) simp
    from r1 r2 r3 show ?L by (intro bexI[of _ "ps @ ws @ rest"] bexI[of _ "ws @ rest"] exI[of _ rest])
  qed
  finally show ?thesis .
qed

lemma doc_pages_blocks_nth:
  assumes "i < length doc"
  shows "(Suc i, filter text_block (doc ! i)) \<in> set (doc_pages_blocks doc)"
proof -
  have n: "[1 ..< 1 + length doc] ! i = 1 + i" using assms by (rule nth_upt[OF add_strict_left_mono])
  have "(1 + i, doc ! i) \<in> set (zip [1 ..< 1 + length doc] doc)"
    unfolding in_set_zip using assms n by (intro exI[of _ i]) simp
  then have "(\<lambda>(i, page). (i, filter text_block page)) (1 + i, doc ! i)
      \<in> (\<lambda>(i, page). (i, filter text_block page)) ` set (zip [1 ..< 1 + length doc] doc)"
    by (rule imageI)
  then show ?thesis by (simp add: doc_pages_blocks_def numbered_pages_def)
qed

lemma heading_block_in_headings:
  assumes "headings_of doc k = Inr hs" "heading_sizes_of doc k = Inr S"
    and "i < length doc" "b \<in> set (doc ! i)" "text_block b" "heading_block S b"
  shows "heading_of (Suc i) b \<in> set hs"
proof -
  have hs: "hs = sorted_headings (candidates S (doc_pages_blocks doc))"
    using assms(1,2) by (simp add: heading_sizes_of_eq headings_of_eq)
  from assms(4,5) have "b \<in> set (filter text_block (doc ! i))" by simp
  with doc_pages_blocks_nth[OF assms(3)] assms(6)
  have "heading_of (Suc i) b \<in> set (candidates S (doc_pages_blocks doc))"
    unfolding candidates_set by blast
  then show ?thesis by (simp add: hs sorted_headings_def)
qed

lemma block_text_nonempty_text_block:
  assumes "block_type b = 0" "block_text b \<noteq> []"
  shows "text_block b \<and> block_spans b \<noteq> []"
proof -
  have "block_spans b \<noteq> []"
  proof
    assume "block_spans b = []"
    then have "block_text b = []" by (simp add: block_text_def py_strip_def)
    with assms(2) show False by simp
  qed
  moreover from this have "block_lines b \<noteq> []" by (auto simp: block_spans_def)
  ultimately show ?thesis using assms(1) by (simp add: text_block_def)
qed

text \<open>
  C5, as amended. In a decoded document, a block of type 0 whose trimmed text is not
  empty, has at most five white-space-delimited words and is in title case as
  \<open>str.istitle\<close> has it (a cased character exists, every upper-case character follows
  an uncased one or starts the text, every lower-case character follows a cased one) is a
  heading candidate, whatever its font size and the heading sizes are.
\<close>

theorem short_title_case_is_heading:
  fixes doc :: "('s::{linorder,minus}, 'y::linorder) document"
  assumes "headings_of doc k = Inr hs" "i < length doc" "b \<in> set (doc ! i)" "block_type b = 0"
    and "block_text b \<noteq> []" "length (py_split (block_text b)) \<le> 5" "title_cased (block_text b)"
  shows "heading_of (Suc i) b \<in> set hs"
proof -
  from heading_sizes_of_total[of doc k] obtain S where S: "heading_sizes_of doc k = Inr S" by blast
  from block_text_nonempty_text_block[OF assms(4,5)] have tb: "text_block b" "block_spans b \<noteq> []"
    by simp_all
  from assms(6,7) have "is_heading S (block_size b) (block_text b)"
    by (simp add: is_heading_def py_istitle_title_cased)
  with tb assms(5) have "heading_block S b" by (simp add: heading_block_def)
  from heading_block_in_headings[OF assms(1) S assms(2,3) tb(1) this] show ?thesis .
qed

theorem short_title_case_is_heading_witness:
  "headings_of [[ex_block [[ex_span ''INTRO'' 20 10]], ex_block [[ex_span '' Payment Terms '' 10 50]]]] None
     = Inr [\<lparr>h_page = 1, h_y0 = 10, h_text = ''INTRO''\<rparr>,
            \<lparr>h_page = 1, h_y0 = 50, h_text = ''Payment Terms''\<rparr>] \<and>
   block_text (ex_block [[ex_span '' Payment Terms '' 10 50]]) = ''Payment Terms'' \<and>
   length (py_split ''Payment Terms'') \<le> 5 \<and>
   title_cased ''Payment Terms'' \<and>
   heading_sizes_of [[ex_block [[ex_span ''INTRO'' 20 10]], ex_block [[ex_span '' Payment Terms '' 10 50]]]] None
     = Inr {20} \<and>
   heading_of (Suc 0) (ex_block [[ex_span '' Payment Terms '' 10 50]])
     \<in> set [\<lparr>h_page = 1, h_y0 = 10, h_text = ''INTRO''\<rparr>,
             \<lparr>h_page = 1, h_y0 = 50, h_text = ''Payment Terms''\<rparr>]"
proof -
  define B :: "(int, int) block" where "B = ex_block [[ex_span '' Payment Terms '' 10 50]]"
  define D where "D = [[ex_block [[ex_span ''INTRO'' 20 10]], B]]"
  define hs :: "int heading list" where "hs = [\<lparr>h_page = 1, h_y0 = 10, h_text = ''INTRO''\<rparr>,
            \<lparr>h_page = 1, h_y0 = 50, h_text = ''Payment Terms''\<rparr>]"
  have h: "headings_of D None = Inr hs" unfolding D_def B_def hs_def by code_simp
  have s: "heading_sizes_of D None = Inr {20}" unfolding D_def B_def by code_simp
  have i: "0 < length D" by (simp add: D_def)
  have m: "B \<in> set (D ! 0)" by (simp add: D_def)
  have t: "block_type B = 0" by (simp add: B_def ex_block_def)
  have x: "block_text B = ''Payment Terms''" unfolding B_def by code_simp
  have ne: "block_text B \<noteq> []" unfolding x by simp
  have w: "length (py_split ''Payment Terms'') \<le> 5" by code_simp
  have tc: "title_cased ''Payment Terms''" by code_simp
  from short_title_case_is_heading[OF h i m t ne w[folded x] tc[folded x]]
  have "heading_of (Suc 0) B \<in> set hs" .
  with h x w tc s show ?thesis unfolding D_def B_def hs_def by blast
qed

text \<open>
  C5 as stated fails: in "Year-end Report" the first letter of each of the two words is
  capitalized, yet the text is not in title case for \<open>str.istitle\<close> (the lower-case
  "e" follows the hyphen), and the block, whose size is not a heading size, is not a
  heading candidate.
\<close>

theorem capitalized_words_not_heading_counterexample:
  "headings_of [[ex_block [[ex_span ''INTRO'' 20 10]], ex_block [[ex_span ''Year-end Report'' 10 50]]]] None
     = Inr [\<lparr>h_page = 1, h_y0 = 10, h_text = ''INTRO''\<rparr>] \<and>
   block_text (ex_block [[ex_span ''Year-end Report'' 10 50]]) = ''Year-end Report'' \<and>
   py_split ''Year-end Report'' = [''Year-end'', ''Report''] \<and>
   every_word_capitalized ''Year-end Report'' \<and>
   \<not> py_istitle ''Year-end Report'' \<and>
   heading_of 1 (ex_block [[ex_span ''Year-end Report'' 10 50]])
     \<notin> set [\<lparr>h_page = 1, h_y0 = 10, h_text = ''INTRO''\<rparr>]"
  by code_simp

text \<open>
  C6. In a decoded document, a block of type 0 whose trimmed text starts with one or more
  decimal digits, then any number of digits and periods, then one or more white-space
  characters, followed by any text, is a heading candidate, whatever its font size and
  the heading sizes are. The text "1.2 Scope of Work" is a heading for every font size and
  every set of heading sizes.
\<close>

theorem numbered_heading_is_heading:
  fixes doc :: "('s::{linorder,minus}, 'y::linorder) document"
  assumes "headings_of doc k = Inr hs" "i < length doc" "b \<in> set (doc ! i)" "block_type b = 0"
    and "block_text b = ds @ ps @ ws @ rest"
    and "ds \<noteq> []" "\<forall>c\<in>set ds. py_isdecimal c"
    and "\<forall>c\<in>set ps. c = CHR ''.'' \<or> py_isdecimal c"
    and "ws \<noteq> []" "\<forall>c\<in>set ws. py_isspace c"
  shows "heading_of (Suc i) b \<in> set hs \<and> is_heading H sz ''1.2 Scope of Work''"
proof
  from heading_sizes_of_total[of doc k] obtain S where S: "heading_sizes_of doc k = Inr S" by blast
  from assms(5,6) have ne: "block_text b \<noteq> []" by simp
  from block_text_nonempty_text_block[OF assms(4) ne] have tb: "text_block b" "block_spans b \<noteq> []"
    by simp_all
  have "num_heading_re_match (block_text b)"
    unfolding num_heading_re_match_iff using assms(5-10)
    by (intro exI[of _ ds] exI[of _ ps] exI[of _ ws] exI[of _ rest] conjI)
  then have "is_heading S (block_size b) (block_text b)" by (simp add: is_heading_def)
  with tb ne have "heading_block S b" by (simp add: heading_block_def)
  from heading_block_in_headings[OF assms(1) S assms(2,3) tb(1) this]
  show "heading_of (Suc i) b \<in> set hs" .
next
  have "num_heading_re_match ''1.2 Scope of Work''" by code_simp
  then show "is_heading H sz ''1.2 Scope of Work''" by (simp add: is_heading_def)
qed

theorem numbered_heading_is_heading_witness:
  "headings_of [[ex_block [[ex_span ''INTRO'' 20 10]], ex_block [[ex_span ''1.2 Scope of Work'' 10 50]]]] None
     = Inr [\<lparr>h_page = 1, h_y0 = 10, h_text = ''INTRO''\<rparr>,
            \<lparr>h_page = 1, h_y0 = 50, h_text = ''1.2 Scope of Work''\<rparr>] \<and>
   heading_sizes_of [[ex_block [[ex_span ''INTRO'' 20 10]], ex_block [[ex_span ''1.2 Scope of Work'' 10 50]]]] None
     = Inr {20} \<and>
   block_text (ex_block [[ex_span ''1.2 Scope of Work'' 10 50]]) = ''1'' @ ''.2'' @ '' '' @ ''Scope of Work'' \<and>
   list_all py_isdecimal ''1'' \<and> list_all (\<lambda>c. c = CHR ''.'' \<or> py_isdecimal c) ''.2'' \<and>
   list_all py_isspace '' '' \<and>
   \<not> py_isupper ''1.2 Scope of Work'' \<and> \<not> py_istitle ''1.2 Scope of Work'' \<and>
   heading_of (Suc 0) (ex_block [[ex_span ''1.2 Scope of Work'' 10 50]])
     \<in> set [\<lparr>h_page = 1, h_y0 = 10, h_text = ''INTRO''\<rparr>,
             \<lparr>h_page = 1, h_y0 = 50, h_text = ''1.2 Scope of Work''\<rparr>] \<and>
   is_heading {} (10::int) ''1.2 Scope of Work''"
proof -
  define B :: "(int, int) block" where "B = ex_block [[ex_span ''1.2 Scope of Work'' 10 50]]"
  define D where "D = [[ex_block [[ex_span ''INTRO'' 20 10]], B]]"
  define hs :: "int heading list" where "hs = [\<lparr>h_page = 1, h_y0 = 10, h_text = ''INTRO''\<rparr>,
            \<lparr>h_page = 1, h_y0 = 50, h_text = ''1.2 Scope of Work''\<rparr>]"
  have h: "headings_of D None = Inr hs" unfolding D_def B_def hs_def by code_simp
  have s: "heading_sizes_of D None = Inr {20}" unfolding D_def B_def by code_simp
  have i: "0 < length D" by (simp add: D_def)
  have m: "B \<in> set (D ! 0)" by (simp add: D_def)
  have t: "block_type B = 0" by (simp add: B_def ex_block_def)
  have x: "block_text B = ''1'' @ ''.2'' @ '' '' @ ''Scope of Work''" unfolding B_def by code_simp
  have d: "list_all py_isdecimal ''1''" by code_simp
  have p: "list_all (\<lambda>c. c = CHR ''.'' \<or> py_isdecimal c) ''.2''" by code_simp
  have w: "list_all py_isspace '' ''" by code_simp
  have n: "\<not> py_isupper ''1.2 Scope of Work''" "\<not> py_istitle ''1.2 Scope of Work''" by code_simp+
  from numbered_heading_is_heading[OF h i m t x _ d[unfolded list_all_iff] p[unfolded list_all_iff]
      _ w[unfolded list_all_iff], of "{}" 10]
  have "heading_of (Suc 0) B \<in> set hs \<and> is_heading {} (10::int) ''1.2 Scope of Work''" by simp
  with h s x d p w n show ?thesis unfolding D_def B_def hs_def by blast
qed

section \<open>The titles and the order of the sections\<close>

lemma py_strip_decomp:
  "\<exists>l r. s = l @ py_strip s @ r \<and> (\<forall>c\<in>set l. py_isspace c) \<and> (\<forall>c\<in>set r. py_isspace c)"
proof -
  define l where "l = takeWhile py_isspace s"
  define a where "a = dropWhile py_isspace s"
  define r where "r = rev (takeWhile py_isspace (rev a))"
  have s: "s = l @ a" by (simp add: l_def a_def)
  have "rev (dropWhile py_isspace (rev a)) @ r = rev (takeWhile py_isspace (rev a) @ dropWhile py_isspace (rev a))"
    unfolding r_def by (simp only: rev_append)
  also have "\<dots> = a" by (simp only: takeWhile_dropWhile_id rev_rev_ident)
  finally have a: "a = py_strip s @ r" by (simp add: py_strip_def a_def)
  have "\<forall>c\<in>set l. py_isspace c" unfolding l_def by (auto dest: set_takeWhileD)
  moreover have "\<forall>c\<in>set r. py_isspace c" unfolding r_def by (auto dest: set_takeWhileD)
  moreover from s a have "s = l @ py_strip s @ r" by simp
  ultimately show ?thesis by blast
qed

lemma py_strip_ends:
  assumes "py_strip s \<noteq> []"
  shows "\<not> py_isspace (hd (py_strip s)) \<and> \<not> py_isspace (last (py_strip s))"
proof -
  define a where "a = dropWhile py_isspace s"
  define d where "d = dropWhile py_isspace (rev a)"
  have st: "py_strip s = rev d" by (simp add: py_strip_def a_def d_def)
  with assms have dn: "d \<noteq> []" by simp
  then have "\<not> py_isspace (hd d)" unfolding d_def by (rule hd_dropWhile)
  with dn have l: "\<not> py_isspace (last (py_strip s))" by (simp add: st last_rev)
  from dn have an: "a \<noteq> []" by (auto simp: d_def)
  then have ha: "\<not> py_isspace (hd a)" unfolding a_def by (rule hd_dropWhile)
  have "rev a = takeWhile py_isspace (rev a) @ d" by (simp add: d_def)
  then have "rev (rev a) = rev (takeWhile py_isspace (rev a) @ d)" by (simp only:)
  then have "a = rev d @ rev (takeWhile py_isspace (rev a))" by (simp only: rev_rev_ident rev_append)
  with dn have "hd a = hd (rev d)" by (metis hd_append2 rev_is_Nil_conv)
  with ha st have "\<not> py_isspace (hd (py_strip s))" by simp
  with l show ?thesis by simp
qed

lemma sorted_headings_length: "length (sorted_headings hs) = length hs"
  by (simp add: sorted_headings_def)

lemma sorted_headings_stable:
  "filter (\<lambda>h. h_page h = pg \<and> h_y0 h = y) (sorted_headings hs)
     = filter (\<lambda>h. h_page h = pg \<and> h_y0 h = y) hs"
proof -
  have e: "(\<lambda>h :: 'a heading. h_page h = pg \<and> h_y0 h = y) = (\<lambda>h. h_pos h = (pg, y))"
    by (simp add: fun_eq_iff h_pos_def)
  show ?thesis unfolding e sorted_headings_key by (rule sort_key_stable)
qed

lemma sorted_headings_order:
  assumes "i < j" "j < length (sorted_headings hs)"
  shows "h_page (sorted_headings hs ! i) < h_page (sorted_headings hs ! j) \<or>
         (h_page (sorted_headings hs ! i) = h_page (sorted_headings hs ! j) \<and>
          h_y0 (sorted_headings hs ! i) \<le> h_y0 (sorted_headings hs ! j))"
proof -
  from assms(1) have "i \<le> j" by simp
  from sorted_pos_mono[OF sorted_headings_sorted this assms(2)] show ?thesis
    by (auto simp: h_pos_def)
qed

lemma candidate_title_trimmed:
  assumes "h \<in> set (candidates S pbs)"
  shows "\<exists>pn blocks b l r. (pn, blocks) \<in> set pbs \<and> b \<in> set blocks \<and> heading_block S b \<and>
           h_page h = pn \<and> h_y0 h = block_y0 b \<and>
           concat (map span_text (block_spans b)) = l @ h_text h @ r \<and>
           (\<forall>c\<in>set l. py_isspace c) \<and> (\<forall>c\<in>set r. py_isspace c) \<and>
           h_text h \<noteq> [] \<and> \<not> py_isspace (hd (h_text h)) \<and> \<not> py_isspace (last (h_text h))"
proof -
  from assms obtain pn blocks b where
    *: "(pn, blocks) \<in> set pbs" "b \<in> set blocks" "heading_block S b" "h = heading_of pn b"
    unfolding candidates_set by blast
  define raw where "raw = concat (map span_text (block_spans b))"
  have t: "h_text h = py_strip raw" by (simp add: * heading_of_def block_text_def raw_def)
  from *(3) have ne: "py_strip raw \<noteq> []" by (simp add: heading_block_def block_text_def raw_def)
  from py_strip_decomp[of raw] obtain l r where
    d: "raw = l @ py_strip raw @ r" "\<forall>c\<in>set l. py_isspace c" "\<forall>c\<in>set r. py_isspace c" by blast
  from py_strip_ends[OF ne] have e: "\<not> py_isspace (hd (py_strip raw))" "\<not> py_isspace (last (py_strip raw))"
    by simp_all
  have p: "h_page h = pn" "h_y0 h = block_y0 b" by (simp_all add: * heading_of_def)
  from * p d e ne show ?thesis unfolding t raw_def
    by (intro exI[of _ pn] exI[of _ blocks] exI[of _ b] exI[of _ l] exI[of _ r]) simp
qed

text \<open>
  C10. For a decoded document the output has exactly one section for each heading
  candidate, whatever the section's body is, and the titles of the output are the texts
  of the headings \<open>hs\<close>, in their order. The headings \<open>hs\<close> are the candidates in sorted
  order: as many as the candidates, in non-decreasing lexicographic order of page and top
  edge, and for each position the headings at that position are the candidates at that
  position in collection order. The candidates are the heading blocks among the text
  blocks, page by page. Each title is the text of a candidate block with its white space
  removed at both ends: the block's concatenated span text is the title between two runs
  of white space, and the title is not empty and neither starts nor ends with white space.
\<close>

theorem extract_everything_sections:
  fixes fitz_open :: "'p \<Rightarrow> error + ('s::{linorder,minus}, 'y::linorder) document"
  assumes "fitz_open pdf_path = Inr doc"
  shows "\<exists>S cands hs content.
           heading_sizes_of doc k = Inr S \<and>
           cands = [\<lparr>h_page = pn, h_y0 = block_y0 b, h_text = block_text b\<rparr>.
                      (pn, blocks) \<leftarrow> doc_pages_blocks doc, b \<leftarrow> blocks, heading_block S b] \<and>
           headings_of doc k = Inr hs \<and>
           length hs = length cands \<and>
           (\<forall>i j. i < j \<and> j < length hs \<longrightarrow>
              h_page (hs ! i) < h_page (hs ! j) \<or>
              (h_page (hs ! i) = h_page (hs ! j) \<and> h_y0 (hs ! i) \<le> h_y0 (hs ! j))) \<and>
           (\<forall>pg y. filter (\<lambda>h. h_page h = pg \<and> h_y0 h = y) hs
                     = filter (\<lambda>h. h_page h = pg \<and> h_y0 h = y) cands) \<and>
           extract_everything fitz_open pdf_path k = Inr content \<and>
           length content = length hs \<and>
           map content_section content = map h_text hs \<and>
           (\<forall>c\<in>set content. content_section c \<noteq> []) \<and>
           (\<forall>h\<in>set hs. \<exists>pn blocks b l r.
              (pn, blocks) \<in> set (doc_pages_blocks doc) \<and> b \<in> set blocks \<and> heading_block S b \<and>
              h_page h = pn \<and> h_y0 h = block_y0 b \<and>
              concat (map span_text (block_spans b)) = l @ h_text h @ r \<and>
              (\<forall>c\<in>set l. py_isspace c) \<and> (\<forall>c\<in>set r. py_isspace c) \<and>
              h_text h \<noteq> [] \<and> \<not> py_isspace (hd (h_text h)) \<and> \<not> py_isspace (last (h_text h)))"
proof -
  from heading_sizes_of_total[of doc k] obtain S where S: "heading_sizes_of doc k = Inr S" by blast
  define cands where "cands = candidates S (doc_pages_blocks doc)"
  define hs where "hs = sorted_headings cands"
  define content where "content = step5 hs (sorted_flat_blocks (positioned (doc_pages_blocks doc)))"
  have c: "cands = [\<lparr>h_page = pn, h_y0 = block_y0 b, h_text = block_text b\<rparr>.
                      (pn, blocks) \<leftarrow> doc_pages_blocks doc, b \<leftarrow> blocks, heading_block S b]"
    unfolding cands_def by (rule candidates_comprehension)
  have h: "headings_of doc k = Inr hs"
    using S by (simp add: hs_def cands_def heading_sizes_of_eq headings_of_eq)
  have l: "length hs = length cands" by (simp add: hs_def sorted_headings_length)
  have o: "\<forall>i j. i < j \<and> j < length hs \<longrightarrow>
              h_page (hs ! i) < h_page (hs ! j) \<or>
              (h_page (hs ! i) = h_page (hs ! j) \<and> h_y0 (hs ! i) \<le> h_y0 (hs ! j))"
    unfolding hs_def using sorted_headings_order by blast
  have st: "\<forall>pg y. filter (\<lambda>h. h_page h = pg \<and> h_y0 h = y) hs
                     = filter (\<lambda>h. h_page h = pg \<and> h_y0 h = y) cands"
    unfolding hs_def by (simp add: sorted_headings_stable)
  have e: "extract_everything fitz_open pdf_path k = Inr content"
    using extract_everything_decoded[where fitz_open = fitz_open, OF assms S]
    by (simp add: content_def hs_def cands_def)
  have m: "map content_section content = map h_text hs"
    by (simp add: content_def content_section_step5)
  then have lc: "length content = length hs" by (rule map_eq_imp_length_eq)
  have tr: "\<forall>h\<in>set hs. \<exists>pn blocks b l r.
              (pn, blocks) \<in> set (doc_pages_blocks doc) \<and> b \<in> set blocks \<and> heading_block S b \<and>
              h_page h = pn \<and> h_y0 h = block_y0 b \<and>
              concat (map span_text (block_spans b)) = l @ h_text h @ r \<and>
              (\<forall>c\<in>set l. py_isspace c) \<and> (\<forall>c\<in>set r. py_isspace c) \<and>
              h_text h \<noteq> [] \<and> \<not> py_isspace (hd (h_text h)) \<and> \<not> py_isspace (last (h_text h))"
  proof
    fix h assume "h \<in> set hs"
    then have "h \<in> set (candidates S (doc_pages_blocks doc))"
      by (simp add: hs_def cands_def sorted_headings_def)
    then show "\<exists>pn blocks b l r.
              (pn, blocks) \<in> set (doc_pages_blocks doc) \<and> b \<in> set blocks \<and> heading_block S b \<and>
              h_page h = pn \<and> h_y0 h = block_y0 b \<and>
              concat (map span_text (block_spans b)) = l @ h_text h @ r \<and>
              (\<forall>c\<in>set l. py_isspace c) \<and> (\<forall>c\<in>set r. py_isspace c) \<and>
              h_text h \<noteq> [] \<and> \<not> py_isspace (hd (h_text h)) \<and> \<not> py_isspace (last (h_text h))"
      by (rule candidate_title_trimmed)
  qed
  then have "\<forall>h\<in>set hs. h_text h \<noteq> []" by blast
  then have "\<forall>t\<in>set (map content_section content). t \<noteq> []" unfolding m by simp
  then have ne: "\<forall>c\<in>set content. content_section c \<noteq> []" by simp
  from S c h l o st e lc m ne tr show ?thesis
    by (intro exI[of _ S] exI[of _ cands] exI[of _ hs] exI[of _ content] conjI)
qed

theorem extract_everything_sections_witness:
  "heading_sizes_of
     [[ex_block [[ex_span '' 2. Pricing '' 16 80]], ex_block [[ex_span ''1. Intro'' 16 20]],
       ex_block [[ex_span ''body'' 10 50]]]] None = Inr {16} \<and>
   [\<lparr>h_page = pn, h_y0 = block_y0 b, h_text = block_text b\<rparr>.
      (pn, blocks) \<leftarrow> doc_pages_blocks
         [[ex_block [[ex_span '' 2. Pricing '' 16 80]], ex_block [[ex_span ''1. Intro'' 16 20]],
           ex_block [[ex_span ''body'' 10 50]]]],
      b \<leftarrow> blocks, heading_block {16} b]
     = [\<lparr>h_page = 1, h_y0 = 80, h_text = ''2. Pricing''\<rparr>,
        \<lparr>h_page = 1, h_y0 = 20, h_text = ''1. Intro''\<rparr>] \<and>
   headings_of
     [[ex_block [[ex_span '' 2. Pricing '' 16 80]], ex_block [[ex_span ''1. Intro'' 16 20]],
       ex_block [[ex_span ''body'' 10 50]]]] None
     = Inr [\<lparr>h_page = 1, h_y0 = 20, h_text = ''1. Intro''\<rparr>,
            \<lparr>h_page = 1, h_y0 = 80, h_text = ''2. Pricing''\<rparr>] \<and>
   extract_everything
     (\<lambda>p. Inr [[ex_block [[ex_span '' 2. Pricing '' 16 80]], ex_block [[ex_span ''1. Intro'' 16 20]],
                 ex_block [[ex_span ''body'' 10 50]]]])
     ''tender.pdf'' None
     = Inr [\<lparr>content_section = ''1. Intro'', content_text = ''1. Intro'' @ [CHR 0x0A] @ ''body''\<rparr>,
            \<lparr>content_section = ''2. Pricing'', content_text = ''2. Pricing''\<rparr>] \<and>
   (h_page \<lparr>h_page = 1, h_y0 = 20::int, h_text = ''1. Intro''\<rparr>
      < h_page \<lparr>h_page = 1, h_y0 = 80::int, h_text = ''2. Pricing''\<rparr> \<or>
    (h_page \<lparr>h_page = 1, h_y0 = 20::int, h_text = ''1. Intro''\<rparr>
      = h_page \<lparr>h_page = 1, h_y0 = 80::int, h_text = ''2. Pricing''\<rparr> \<and>
     h_y0 \<lparr>h_page = 1, h_y0 = 20::int, h_text = ''1. Intro''\<rparr>
      \<le> h_y0 \<lparr>h_page = 1, h_y0 = 80::int, h_text = ''2. Pricing''\<rparr>)) \<and>
   (\<exists>pn blocks b l r.
      (pn, blocks) \<in> set (doc_pages_blocks
         [[ex_block [[ex_span '' 2. Pricing '' 16 80]], ex_block [[ex_span ''1. Intro'' 16 20]],
           ex_block [[ex_span ''body'' 10 50]]]]) \<and>
      b \<in> set blocks \<and> heading_block {16} b \<and> pn = 1 \<and> block_y0 b = 80 \<and>
      concat (map span_text (block_spans b)) = l @ ''2. Pricing'' @ r \<and>
      (\<forall>c\<in>set l. py_isspace c) \<and> (\<forall>c\<in>set r. py_isspace c))"
proof -
  define D :: "(int, int) document" where
    "D = [[ex_block [[ex_span '' 2. Pricing '' 16 80]], ex_block [[ex_span ''1. Intro'' 16 20]],
           ex_block [[ex_span ''body'' 10 50]]]]"
  define f :: "string \<Rightarrow> error + (int, int) document" where "f = (\<lambda>p. Inr D)"
  define H1 :: "int heading" where "H1 = \<lparr>h_page = 1, h_y0 = 20, h_text = ''1. Intro''\<rparr>"
  define H2 :: "int heading" where "H2 = \<lparr>h_page = 1, h_y0 = 80, h_text = ''2. Pricing''\<rparr>"
  have d: "f ''tender.pdf'' = Inr D" by (simp add: f_def)
  have w1: "heading_sizes_of D None = Inr {16}" unfolding D_def by code_simp
  have w3: "[\<lparr>h_page = pn, h_y0 = block_y0 b, h_text = block_text b\<rparr>.
      (pn, blocks) \<leftarrow> doc_pages_blocks D, b \<leftarrow> blocks, heading_block {16} b] = [H2, H1]"
    unfolding D_def H1_def H2_def by code_simp
  have w2: "headings_of D None = Inr [H1, H2]" unfolding D_def H1_def H2_def by code_simp
  have w4: "extract_everything f ''tender.pdf'' None
     = Inr [\<lparr>content_section = ''1. Intro'', content_text = ''1. Intro'' @ [CHR 0x0A] @ ''body''\<rparr>,
            \<lparr>content_section = ''2. Pricing'', content_text = ''2. Pricing''\<rparr>]"
    unfolding f_def D_def by code_simp
  from extract_everything_sections[where fitz_open = f, OF d, of None] obtain S cands hs content where
    S: "heading_sizes_of D None = Inr S" and
    h: "headings_of D None = Inr hs" and
    o: "\<forall>i j. i < j \<and> j < length hs \<longrightarrow>
              h_page (hs ! i) < h_page (hs ! j) \<or>
              (h_page (hs ! i) = h_page (hs ! j) \<and> h_y0 (hs ! i) \<le> h_y0 (hs ! j))" and
    e: "extract_everything f ''tender.pdf'' None = Inr content" and
    tr: "\<forall>h\<in>set hs. \<exists>pn blocks b l r.
              (pn, blocks) \<in> set (doc_pages_blocks D) \<and> b \<in> set blocks \<and> heading_block S b \<and>
              h_page h = pn \<and> h_y0 h = block_y0 b \<and>
              concat (map span_text (block_spans b)) = l @ h_text h @ r \<and>
              (\<forall>c\<in>set l. py_isspace c) \<and> (\<forall>c\<in>set r. py_isspace c) \<and>
              h_text h \<noteq> [] \<and> \<not> py_isspace (hd (h_text h)) \<and> \<not> py_isspace (last (h_text h))"
    by blast
  from S w1 have Seq: "S = {16}" by simp
  from h w2 have hseq: "hs = [H1, H2]" by simp
  from o[rule_format, of 0 1] have w5: "h_page H1 < h_page H2 \<or>
      (h_page H1 = h_page H2 \<and> h_y0 H1 \<le> h_y0 H2)" unfolding hseq by simp
  from tr[rule_format, of H2] obtain pn blocks b l r where
    "(pn, blocks) \<in> set (doc_pages_blocks D)" "b \<in> set blocks" "heading_block {16} b"
    "h_page H2 = pn" "h_y0 H2 = block_y0 b"
    "concat (map span_text (block_spans b)) = l @ h_text H2 @ r"
    "\<forall>c\<in>set l. py_isspace c" "\<forall>c\<in>set r. py_isspace c"
    unfolding hseq Seq by auto
  then have w6: "\<exists>pn blocks b l r.
      (pn, blocks) \<in> set (doc_pages_blocks D) \<and>
      b \<in> set blocks \<and> heading_block {16} b \<and> pn = 1 \<and> block_y0 b = 80 \<and>
      concat (map span_text (block_spans b)) = l @ ''2. Pricing'' @ r \<and>
      (\<forall>c\<in>set l. py_isspace c) \<and> (\<forall>c\<in>set r. py_isspace c)"
    by (intro exI[of _ pn] exI[of _ blocks] exI[of _ b] exI[of _ l] exI[of _ r]) (simp add: H2_def)
  from w1 w3 w2 w4 w5 w6 show ?thesis unfolding f_def D_def H1_def H2_def by (intro conjI)
qed

end
